theory Spec2Isabelle
  imports Main
begin

section \<open>Definite initialization: the per-element lattice\<close>

text \<open>
  The model follows \<^verbatim>\<open>lib/SILPasses/DefiniteInitialization.cpp\<close>.
  The enumeration \<^verbatim>\<open>DIKind\<close> has the three values No, Yes and Partial; an optional
  DIKind with no value is the bottom element "Unknown".
\<close>

datatype DIKind = No | Yes | Partial

text \<open>
  \<^verbatim>\<open>mergeKinds\<close>: the branches are kept in the order of the source: OK1 unset, K1
  partial, OK2 unset, K1 and K2 different, otherwise K1.
\<close>

fun mergeKinds :: "DIKind option \<Rightarrow> DIKind option \<Rightarrow> DIKind option" where
  "mergeKinds None OK2 = OK2"
| "mergeKinds (Some K1) OK2 =
     (if K1 = Partial then Some K1
      else (case OK2 of
              None \<Rightarrow> Some K1
            | Some K2 \<Rightarrow> if K1 \<noteq> K2 then Some Partial else Some K1))"

section \<open>AvailabilitySet: two bits per element\<close>

text \<open>
  The class holds one \<^verbatim>\<open>llvm::SmallBitVector Data\<close>, modelled as a list of bits. Element
  \<open>Elt\<close> lives in the bits \<open>Elt*2\<close> and \<open>Elt*2+1\<close>:
  T,T is Unknown, F,F is No, F,T is Yes and T,F is Partial.
  \<^verbatim>\<open>SmallBitVector::operator[]\<close> asserts that its index is below the size of the vector,
  so the source has no behaviour for an element index that is not below \<open>size\<close>; every
  statement below about an element carries that bound, and the operations of the checker
  that take an index from outside check it and fail.
\<close>

type_synonym AvailabilitySet = "bool list"

definition AvailabilitySet :: "nat \<Rightarrow> AvailabilitySet" where
  "AvailabilitySet NumElts = replicate (NumElts * 2) True"

definition empty_av :: "AvailabilitySet \<Rightarrow> bool" where
  "empty_av Data = (Data = [])"

definition size_av :: "AvailabilitySet \<Rightarrow> nat" where
  "size_av Data = length Data div 2"

definition getConditional :: "AvailabilitySet \<Rightarrow> nat \<Rightarrow> DIKind option" where
  "getConditional Data Elt =
     (let V1 = Data ! (Elt * 2); V2 = Data ! (Elt * 2 + 1)
      in if V1 = V2 then (if V1 then None else Some No)
         else (if V2 then Some Yes else Some Partial))"

fun set_DIKind :: "AvailabilitySet \<Rightarrow> nat \<Rightarrow> DIKind \<Rightarrow> AvailabilitySet" where
  "set_DIKind Data Elt No = (Data[Elt * 2 := False])[Elt * 2 + 1 := False]"
| "set_DIKind Data Elt Yes = (Data[Elt * 2 := False])[Elt * 2 + 1 := True]"
| "set_DIKind Data Elt Partial = (Data[Elt * 2 := True])[Elt * 2 + 1 := False]"

fun set_Optional :: "AvailabilitySet \<Rightarrow> nat \<Rightarrow> DIKind option \<Rightarrow> AvailabilitySet" where
  "set_Optional Data Elt None = (Data[Elt * 2 := True])[Elt * 2 + 1 := True]"
| "set_Optional Data Elt (Some K) = set_DIKind Data Elt K"

text \<open>
  The loops \<^verbatim>\<open>for (unsigned i = 0, e = size(); i != e; ++i)\<close> run over the indices
  \<open>[0..<size]\<close> in increasing order; a loop that returns at the first hit is the
  corresponding search over that list.
\<close>

definition containsUnknownElements :: "AvailabilitySet \<Rightarrow> bool" where
  "containsUnknownElements Data =
     list_ex (\<lambda>i. getConditional Data i = None) [0..<size_av Data]"

definition isAll :: "AvailabilitySet \<Rightarrow> DIKind \<Rightarrow> bool" where
  "isAll Data K = list_all (\<lambda>i. getConditional Data i = Some K) [0..<size_av Data]"

definition hasAny :: "AvailabilitySet \<Rightarrow> DIKind \<Rightarrow> bool" where
  "hasAny Data K = list_ex (\<lambda>i. getConditional Data i = Some K) [0..<size_av Data]"

definition isAllYes :: "AvailabilitySet \<Rightarrow> bool" where
  "isAllYes Data = isAll Data Yes"

definition isAllNo :: "AvailabilitySet \<Rightarrow> bool" where
  "isAllNo Data = isAll Data No"

definition changeUnsetElementsTo :: "AvailabilitySet \<Rightarrow> DIKind \<Rightarrow> AvailabilitySet" where
  "changeUnsetElementsTo Data K =
     fold (\<lambda>i D. if getConditional D i = None then set_DIKind D i K else D)
       [0..<size_av Data] Data"

definition mergeIn :: "AvailabilitySet \<Rightarrow> AvailabilitySet \<Rightarrow> AvailabilitySet" where
  "mergeIn Data RHS =
     fold (\<lambda>i D. set_Optional D i (mergeKinds (getConditional D i) (getConditional RHS i)))
       [0..<size_av Data] Data"

text \<open>
  \<^verbatim>\<open>get\<close> is \<^verbatim>\<open>getConditional(Elt).getValue()\<close>: \<^verbatim>\<open>Optional::getValue\<close> asserts that the
  value is present, so reading an Unknown element is a failed assertion.
\<close>

datatype error = AssertionFailure | OutOfFuel

definition get :: "AvailabilitySet \<Rightarrow> nat \<Rightarrow> error + DIKind" where
  "get Data Elt = (case getConditional Data Elt of None \<Rightarrow> Inl AssertionFailure | Some K \<Rightarrow> Inr K)"

section \<open>Per-block state\<close>

datatype LiveOutStateTy = IsUnknown | IsComputingLiveOut | IsKnown

record LiveOutBlockState =
  HasNonLoadUse :: bool
  Availability :: AvailabilitySet
  LOState :: LiveOutStateTy

definition LiveOutBlockState :: "nat \<Rightarrow> LiveOutBlockState" where
  "LiveOutBlockState N =
     \<lparr>HasNonLoadUse = False, Availability = AvailabilitySet N, LOState = IsUnknown\<rparr>"

text \<open>Both setters assert that the block is not yet Known; the first also asserts that
  the new set has no Unknown element, the second that the set has one element.\<close>

definition setBlockAvailability :: "LiveOutBlockState \<Rightarrow> AvailabilitySet \<Rightarrow> error + LiveOutBlockState" where
  "setBlockAvailability S AV =
     (if LOState S = IsKnown then Inl AssertionFailure
      else if containsUnknownElements AV then Inl AssertionFailure
      else Inr (S\<lparr>Availability := AV, LOState := IsKnown\<rparr>))"

definition setBlockAvailability1 :: "LiveOutBlockState \<Rightarrow> DIKind \<Rightarrow> error + LiveOutBlockState" where
  "setBlockAvailability1 S K =
     (if LOState S = IsKnown then Inl AssertionFailure
      else if size_av (Availability S) \<noteq> 1 then Inl AssertionFailure
      else Inr (S\<lparr>Availability := set_DIKind (Availability S) 0 K, LOState := IsKnown\<rparr>))"

section \<open>The function under analysis and the block map\<close>

text \<open>
  Blocks and instructions are identified by numbers (the pointers of the source). A value
  is a result of an instruction or an argument. The analysis reads the predecessors of a
  block, the instructions of a block in order and the parent block of an instruction; the
  rewrites also read and write the instructions themselves.

  Modelled from the spec: the intermediate representation (its instructions, types,
  locations and the builder) is not part of the sources at hand. Of an instruction the
  model keeps the kind and the operands; of a type whether it is an address, whether it
  is trivial (\<^verbatim>\<open>isTrivial(M)\<close>) and, for a builtin integer, its width; of a location its
  source location, which may be invalid.
\<close>

type_synonym SILBasicBlock = nat
type_synonym SILInstruction = nat

datatype SILValue = SILValue SILInstruction nat | SILArgument nat

type_synonym SourceLoc = "nat option"

datatype SILLocation = NullLocation | Location SourceLoc

fun getSourceLoc :: "SILLocation \<Rightarrow> SourceLoc" where
  "getSourceLoc NullLocation = None"
| "getSourceLoc (Location L) = L"

datatype CanType = BuiltinIntegerType nat | NominalType nat bool

datatype SILType = SILType CanType bool

fun isAddress :: "SILType \<Rightarrow> bool" where
  "isAddress (SILType T a) = a"

fun isTrivial :: "SILType \<Rightarrow> bool" where
  "isTrivial (SILType (BuiltinIntegerType w) a) = True"
| "isTrivial (SILType (NominalType n t) a) = t"

fun getObjectType :: "SILType \<Rightarrow> SILType" where
  "getObjectType (SILType T a) = SILType T False"

fun getAddressType :: "SILType \<Rightarrow> SILType" where
  "getAddressType (SILType T a) = SILType T True"

datatype FuncDecl = FuncDecl (getName: string) (isAccessor: bool) (getAccessorStorageName: string)

datatype SILInst =
    AllocStackInst SILType
  | AllocBoxInst SILType
  | MarkUninitializedInst SILValue
  | AssignInst SILValue SILValue
  | StoreInst SILValue SILValue
  | LoadInst SILValue
  | CopyAddrInst SILValue SILValue bool
  | StoreWeakInst SILValue SILValue bool
  | ReleaseValueInst SILValue
  | StrongReleaseInst SILValue
  | DestroyAddrInst SILValue
  | DeallocStackInst SILValue
  | DeallocBoxInst SILType SILValue
  | DeallocRefInst SILValue
  | ElementAddrInst nat SILValue
  | IntegerLiteralInst SILType nat
  | BuiltinInst string SILType "SILValue list"
  | BranchInst SILBasicBlock
  | CondBranchInst SILValue SILBasicBlock SILBasicBlock
  | ReturnInst SILValue
  | ApplyInst SILValue "SILValue list"
  | UpcastInst SILValue
  | ClassMethodInst SILValue "FuncDecl option"
  | FunctionRefInst "FuncDecl option"
  | RefElementAddrInst SILValue string
  | MarkFunctionEscapeInst "SILValue list"
  | AddressToPointerInst SILValue
  | OtherInst "SILValue list"

record SILFunction =
  getBlocks :: "SILBasicBlock list"
  getPreds :: "SILBasicBlock \<Rightarrow> SILBasicBlock list"
  getSuccs :: "SILBasicBlock \<Rightarrow> SILBasicBlock list"
  getInsts :: "SILBasicBlock \<Rightarrow> SILInstruction list"
  getParent :: "SILInstruction \<Rightarrow> SILBasicBlock"
  getInst :: "SILInstruction \<Rightarrow> SILInst"
  getLoc :: "SILInstruction \<Rightarrow> SILLocation"
  getType :: "SILValue \<Rightarrow> SILType"
  getLocation :: SILLocation
  NextInst :: SILInstruction
  NextBlock :: SILBasicBlock

text \<open>
  \<^verbatim>\<open>PerBlockInfo\<close> is a dense map read only through \<^verbatim>\<open>getBlockInfo\<close>, which inserts
  \<^verbatim>\<open>LiveOutBlockState(TheMemory.NumElements)\<close> for a block that has no entry yet. Such a
  map is a total function whose initial value is that default at every block.
\<close>

type_synonym PerBlockInfo = "SILBasicBlock \<Rightarrow> LiveOutBlockState"

definition PerBlockInfo_init :: "nat \<Rightarrow> PerBlockInfo" where
  "PerBlockInfo_init N = (\<lambda>BB. LiveOutBlockState N)"

section \<open>Live-out dataflow\<close>

text \<open>
  \<^verbatim>\<open>getLiveOut1\<close> and \<^verbatim>\<open>getPredsLiveOut1\<close> call each other; so do \<^verbatim>\<open>getLiveOutN\<close> and
  \<^verbatim>\<open>getPredsLiveOutN\<close>. The recursion of the source has no syntactic bound, so the model
  carries fuel: each call of \<^verbatim>\<open>getLiveOut\<close> uses one unit, and running out is the value
  \<open>Inl OutOfFuel\<close>. The loop over \<^verbatim>\<open>BB->getPreds()\<close> is the recursion over the list of
  predecessors. \<open>N\<close> is \<^verbatim>\<open>TheMemory.NumElements\<close>.
\<close>

fun getLiveOut1 :: "nat \<Rightarrow> SILFunction \<Rightarrow> PerBlockInfo \<Rightarrow> SILBasicBlock
      \<Rightarrow> error + (DIKind option \<times> PerBlockInfo)"
  and getPredsLiveOut1 :: "nat \<Rightarrow> SILFunction \<Rightarrow> PerBlockInfo \<Rightarrow> SILBasicBlock list
      \<Rightarrow> DIKind option \<Rightarrow> error + (DIKind option \<times> PerBlockInfo)" where
  "getLiveOut1 0 F P BB = Inl OutOfFuel"
| "getLiveOut1 (Suc n) F P BB =
     (case LOState (P BB) of
        IsKnown \<Rightarrow>
          (case get (Availability (P BB)) 0 of
             Inl e \<Rightarrow> Inl e
           | Inr K \<Rightarrow> Inr (Some K, P))
      | IsComputingLiveOut \<Rightarrow> Inr (None, P)
      | IsUnknown \<Rightarrow>
          (let LocalAV = getConditional (Availability (P BB)) 0 in
           if LocalAV = Some Yes then
             (case setBlockAvailability1 (P BB) Yes of
                Inl e \<Rightarrow> Inl e
              | Inr S \<Rightarrow> Inr (LocalAV, P(BB := S)))
           else
             (let P1 = P(BB := (P BB)\<lparr>LOState := IsComputingLiveOut\<rparr>);
                  Result = getConditional (Availability (P1 BB)) 0
              in case getPredsLiveOut1 n F P1 (getPreds F BB) Result of
                   Inl e \<Rightarrow> Inl e
                 | Inr (Result', P2) \<Rightarrow>
                     (case Result' of
                        Some K \<Rightarrow>
                          (case setBlockAvailability1 (P2 BB) K of
                             Inl e \<Rightarrow> Inl e
                           | Inr S \<Rightarrow> Inr (Result', P2(BB := S)))
                      | None \<Rightarrow> Inr (Result', P2(BB := (P2 BB)\<lparr>LOState := IsUnknown\<rparr>))))))"
| "getPredsLiveOut1 n F P [] Result = Inr (Result, P)"
| "getPredsLiveOut1 n F P (Pred # Preds) Result =
     (case getLiveOut1 n F P Pred of
        Inl e \<Rightarrow> Inl e
      | Inr (R, P') \<Rightarrow> getPredsLiveOut1 n F P' Preds (mergeKinds Result R))"

text \<open>The loop of \<^verbatim>\<open>getLiveOutN\<close> that keeps what the block itself defines.\<close>

definition keepLocalYes :: "nat \<Rightarrow> AvailabilitySet \<Rightarrow> AvailabilitySet \<Rightarrow> AvailabilitySet" where
  "keepLocalYes N LocalAV Result =
     fold (\<lambda>i R. if getConditional LocalAV i = Some Yes then set_DIKind R i Yes else R)
       [0..<N] Result"

fun getLiveOutN :: "nat \<Rightarrow> SILFunction \<Rightarrow> nat \<Rightarrow> PerBlockInfo \<Rightarrow> SILBasicBlock
      \<Rightarrow> error + (AvailabilitySet \<times> PerBlockInfo)"
  and getPredsLiveOutN :: "nat \<Rightarrow> SILFunction \<Rightarrow> nat \<Rightarrow> PerBlockInfo \<Rightarrow> SILBasicBlock list
      \<Rightarrow> AvailabilitySet \<Rightarrow> error + (AvailabilitySet \<times> PerBlockInfo)" where
  "getLiveOutN 0 F N P BB = Inl OutOfFuel"
| "getLiveOutN (Suc n) F N P BB =
     (case LOState (P BB) of
        IsKnown \<Rightarrow> Inr (Availability (P BB), P)
      | IsComputingLiveOut \<Rightarrow> Inr (AvailabilitySet N, P)
      | IsUnknown \<Rightarrow>
          (let P1 = P(BB := (P BB)\<lparr>LOState := IsComputingLiveOut\<rparr>)
           in case getPredsLiveOutN n F N P1 (getPreds F BB)
                     (AvailabilitySet N) of
                Inl e \<Rightarrow> Inl e
              | Inr (Result, P2) \<Rightarrow>
                  (let Result' = keepLocalYes N (Availability (P2 BB)) Result
                   in if \<not> containsUnknownElements Result' then
                        (case setBlockAvailability (P2 BB) Result' of
                           Inl e \<Rightarrow> Inl e
                         | Inr S \<Rightarrow> Inr (Result', P2(BB := S)))
                      else Inr (Result', P2(BB := (P2 BB)\<lparr>LOState := IsUnknown\<rparr>)))))"
| "getPredsLiveOutN n F N P [] Result = Inr (Result, P)"
| "getPredsLiveOutN n F N P (Pred # Preds) Result =
     (case getLiveOutN n F N P Pred of
        Inl e \<Rightarrow> Inl e
      | Inr (R, P') \<Rightarrow> getPredsLiveOutN n F N P' Preds (mergeIn Result R))"

section \<open>The memory object, its uses and the checker\<close>

text \<open>
  Modelled from the spec: the declarations of \<^verbatim>\<open>DIMemoryUseCollector.h\<close> are not part of
  the sources at hand. A use has an instruction (a null pointer once a rewrite has deleted
  it), a kind out of a closed set, and the element range \<open>[FirstElement,
  FirstElement + NumElements)\<close>. A memory object has its defining instruction, the number
  \<open>N\<close> of its elements, a role, and per element whether it is a \<^verbatim>\<open>let\<close> and whether its
  type is trivial.
\<close>

datatype DIUseKind =
  Load | IndirectIn | InOutUse | Initialization | Assign | InitOrAssign | PartialStore
  | Escape | SuperInit | SelfInit

record DIMemoryUse =
  Inst :: "SILInstruction option"
  Kind :: DIUseKind
  FirstElement :: nat
  NumElements :: nat

datatype MemoryRole =
  LocalVar | GlobalVar | RootClassSelf | DerivedClassSelf | StructSelf | EnumSelf
  | DelegatingSelf

text \<open>
  Of the declaration behind an element (\<^verbatim>\<open>getPathStringToElement\<close>) the model keeps its
  location, whether it is implicit, and whether it is a variable whose pattern has an
  initial value. The names that the diagnostics print are left out.
\<close>

record ValueDecl =
  declLoc :: SourceLoc
  isImplicit :: bool
  hasInit :: bool

record DIMemoryObjectInfo =
  MemoryInst :: SILInstruction
  MemoryNumElements :: nat
  role :: MemoryRole
  elementIsLet :: "nat \<Rightarrow> bool"
  trivialType :: "nat \<Rightarrow> bool"
  elementDecl :: "nat \<Rightarrow> ValueDecl option"
  MemorySILType :: SILType
  MemoryLoc :: SILLocation

text \<open>
  The diagnostics of the pass, by their identifiers in the source. The diagnostic engine
  is outside the pass: the model keeps the list of what was handed to it, each entry with
  the source location it was emitted at.
\<close>

datatype DiagID =
    stored_property_not_initialized
  | variable_defined_here
  | self_use_before_init_in_delegatinginit
  | return_from_init_without_self_init
  | global_variable_function_use_uninit
  | variable_addrtaken_before_initialized
  | variable_escape_before_initialized
  | struct_not_fully_initialized
  | immutable_property_already_initialized
  | initial_value_provided_in_let_decl
  | variable_inout_before_initialized
  | immutable_property_passed_inout
  | return_from_init_without_initing_self
  | return_from_init_without_initing_stored_properties
  | superselfinit_not_called_before_return
  | self_use_before_fully_init
  | self_before_superselfinit
  | use_of_self_before_fully_init
  | variable_used_before_initialized
  | selfinit_multiple_times
  | ivar_not_initialized_at_implicit_superinit
  | ivar_not_initialized_at_superinit
  | object_not_fully_initialized_before_failure

datatype Diagnostic = Diagnostic (diagLoc: SourceLoc) (diagID: DiagID)

record LifetimeChecker =
  Fn :: SILFunction
  TheMemory :: DIMemoryObjectInfo
  Uses :: "DIMemoryUse list"
  Releases :: "SILInstruction option list"
  ConditionalDestroys :: "(nat \<times> AvailabilitySet) list"
  PerBlockInfo :: PerBlockInfo
  NonLoadUses :: "SILInstruction \<rightharpoonup> nat"
  HasConditionalInitAssignOrDestroys :: bool
  EmittedErrorLocs :: "SourceLoc list"
  BlocksReachableFromEntry :: "SILBasicBlock list"
  Diags :: "Diagnostic list"

text \<open>
  \<^verbatim>\<open>markAvailable\<close>: nothing for an empty set; otherwise the first element of the use is
  set, then the elements \<open>FirstElement + i\<close> for \<open>i\<close> from 1 while \<open>i != NumElements\<close>. With
  \<open>NumElements = 0\<close> that unsigned loop runs past every size, and an element that is not
  below the size of the set fails the assertion of the bit vector.
\<close>

definition markAvailable :: "LiveOutBlockState \<Rightarrow> DIMemoryUse \<Rightarrow> error + LiveOutBlockState" where
  "markAvailable S Use =
     (if empty_av (Availability S) then Inr S
      else if NumElements Use = 0 \<or> size_av (Availability S) < FirstElement Use + NumElements Use
      then Inl AssertionFailure
      else Inr (S\<lparr>Availability :=
             fold (\<lambda>i D. set_DIKind D (FirstElement Use + i) Yes) [1..<NumElements Use]
               (set_DIKind (Availability S) (FirstElement Use) Yes)\<rparr>))"

text \<open>One iteration of the constructor's loop over \<^verbatim>\<open>Uses\<close>, at index \<open>ui\<close>.\<close>

definition collectUse :: "LifetimeChecker \<Rightarrow> nat \<Rightarrow> error + LifetimeChecker" where
  "collectUse C ui =
     (let Use = Uses C ! ui in
      case Inst Use of
        None \<Rightarrow> Inl AssertionFailure
      | Some I \<Rightarrow>
          if Kind Use = Load \<or> Kind Use = Escape then Inr C
          else
            (let BB = getParent (Fn C) I;
                 BBInfo = (PerBlockInfo C BB)\<lparr>HasNonLoadUse := True\<rparr>
             in case markAvailable BBInfo Use of
                  Inl e \<Rightarrow> Inl e
                | Inr BBInfo' \<Rightarrow>
                    Inr (C\<lparr>NonLoadUses := (NonLoadUses C)(I \<mapsto> ui),
                           PerBlockInfo := (PerBlockInfo C)(BB :=
                             (if isAllYes (Availability BBInfo')
                              then BBInfo'\<lparr>LOState := IsKnown\<rparr> else BBInfo'))\<rparr>)))"

fun collectUses :: "LifetimeChecker \<Rightarrow> nat list \<Rightarrow> error + LifetimeChecker" where
  "collectUses C [] = Inr C"
| "collectUses C (ui # uis) =
     (case collectUse C ui of Inl e \<Rightarrow> Inl e | Inr C' \<Rightarrow> collectUses C' uis)"

text \<open>The constructor. \<^verbatim>\<open>~0U\<close> is the largest 32-bit unsigned number.\<close>

definition LifetimeChecker :: "SILFunction \<Rightarrow> DIMemoryObjectInfo \<Rightarrow> DIMemoryUse list
      \<Rightarrow> SILInstruction option list \<Rightarrow> error + LifetimeChecker" where
  "LifetimeChecker F M Us Rs =
     (let C0 = \<lparr>Fn = F, TheMemory = M, Uses = Us, Releases = Rs, ConditionalDestroys = [],
                PerBlockInfo = PerBlockInfo_init (MemoryNumElements M),
                NonLoadUses = Map.empty, HasConditionalInitAssignOrDestroys = False,
                EmittedErrorLocs = [], BlocksReachableFromEntry = [], Diags = []\<rparr>
      in case collectUses C0 [0..<length Us] of
           Inl e \<Rightarrow> Inl e
         | Inr C \<Rightarrow>
             (let MemBB = getParent F (MemoryInst M);
                  MemBBInfo = PerBlockInfo C MemBB
              in Inr (C\<lparr>NonLoadUses := (NonLoadUses C)(MemoryInst M \<mapsto> 4294967295),
                        PerBlockInfo := (PerBlockInfo C)(MemBB :=
                          MemBBInfo\<lparr>HasNonLoadUse := True,
                                    Availability := changeUnsetElementsTo (Availability MemBBInfo) No,
                                    LOState := IsKnown\<rparr>)\<rparr>)))"

section \<open>Liveness at an instruction\<close>

text \<open>
  The local scan walks from the instruction back to the start of its block:
  \<^verbatim>\<open>for (BBI = Inst, E = InstBB->begin(); BBI != E;) { TheInst = --BBI; ... }\<close>, that is,
  over the instructions in front of \<open>Inst\<close>, nearest first.
\<close>

definition instsBefore :: "SILFunction \<Rightarrow> SILInstruction \<Rightarrow> SILInstruction list" where
  "instsBefore F I = rev (takeWhile (\<lambda>J. J \<noteq> I) (getInsts F (getParent F I)))"

text \<open>The scan of the one-element case: the first non-load use decides.\<close>

fun scanBlock1 :: "LifetimeChecker \<Rightarrow> SILInstruction list \<Rightarrow> DIKind option" where
  "scanBlock1 C [] = None"
| "scanBlock1 C (TheInst # Is) =
     (if NonLoadUses C TheInst = None then scanBlock1 C Is
      else Some (if TheInst = MemoryInst (TheMemory C) then No else Yes))"

text \<open>
  The scan of the general case keeps \<^verbatim>\<open>NeededElements\<close>, a bit vector of \<open>N\<close> bits. It
  either returns the result from inside the loop, or falls out of the loop with the
  elements that are still needed. \<^verbatim>\<open>SmallBitVector::set(I, E)\<close> and \<^verbatim>\<open>reset(I, E)\<close> assert
  \<open>E \<le> size\<close>, and \<^verbatim>\<open>Uses[It->second]\<close> is an element of the vector of uses.
\<close>

definition set_range :: "bool list \<Rightarrow> nat \<Rightarrow> nat \<Rightarrow> bool \<Rightarrow> bool list" where
  "set_range Bits I E v = fold (\<lambda>i B. B[i := v]) [I..<E] Bits"

definition none_bits :: "bool list \<Rightarrow> bool" where
  "none_bits Bits = list_all (\<lambda>b. \<not> b) Bits"

datatype scan_result = Decided AvailabilitySet | StillNeeded "bool list"

fun scanBlockN :: "LifetimeChecker \<Rightarrow> nat \<Rightarrow> nat \<Rightarrow> AvailabilitySet \<Rightarrow> bool list
      \<Rightarrow> SILInstruction list \<Rightarrow> error + scan_result" where
  "scanBlockN C FirstElt NumElts Result NeededElements [] = Inr (StillNeeded NeededElements)"
| "scanBlockN C FirstElt NumElts Result NeededElements (TheInst # Is) =
     (case NonLoadUses C TheInst of
        None \<Rightarrow> scanBlockN C FirstElt NumElts Result NeededElements Is
      | Some It \<Rightarrow>
          if TheInst = MemoryInst (TheMemory C) then
            Inr (Decided (fold (\<lambda>i R. set_DIKind R i (if NeededElements ! i then No else Yes))
                            [FirstElt..<FirstElt + NumElts] Result))
          else if length (Uses C) \<le> It then Inl AssertionFailure
          else
            (let TheInstUse = Uses C ! It in
             if length NeededElements < FirstElement TheInstUse + NumElements TheInstUse
             then Inl AssertionFailure
             else
               (let NeededElements' = set_range NeededElements (FirstElement TheInstUse)
                      (FirstElement TheInstUse + NumElements TheInstUse) False
                in if none_bits NeededElements'
                   then Inr (Decided (changeUnsetElementsTo Result Yes))
                   else scanBlockN C FirstElt NumElts Result NeededElements' Is)))"

definition getLivenessAtInst :: "nat \<Rightarrow> LifetimeChecker \<Rightarrow> SILInstruction \<Rightarrow> nat \<Rightarrow> nat
      \<Rightarrow> error + (AvailabilitySet \<times> LifetimeChecker)" where
  "getLivenessAtInst fuel C I FirstElt NumElts =
     (let N = MemoryNumElements (TheMemory C);
          Result = AvailabilitySet N
      in if NumElts = 0 then Inr (Result, C)
      else
        (let InstBB = getParent (Fn C) I in
         if N = 1 then
           (case (if HasNonLoadUse (PerBlockInfo C InstBB)
                  then scanBlock1 C (instsBefore (Fn C) I) else None) of
              Some K \<Rightarrow> Inr (set_DIKind Result 0 K, C)
            | None \<Rightarrow>
                (case getPredsLiveOut1 fuel (Fn C) (PerBlockInfo C) (getPreds (Fn C) InstBB) None of
                   Inl e \<Rightarrow> Inl e
                 | Inr (ResultVal, P') \<Rightarrow>
                     Inr (set_Optional Result 0
                            (if ResultVal = None then Some Yes else ResultVal),
                          C\<lparr>PerBlockInfo := P'\<rparr>)))
         else if N < FirstElt + NumElts then Inl AssertionFailure
         else
           (let NeededElements = set_range (replicate N False) FirstElt (FirstElt + NumElts) True
            in case (if HasNonLoadUse (PerBlockInfo C InstBB)
                     then scanBlockN C FirstElt NumElts Result NeededElements
                            (instsBefore (Fn C) I)
                     else Inr (StillNeeded NeededElements)) of
                 Inl e \<Rightarrow> Inl e
               | Inr (Decided R) \<Rightarrow> Inr (R, C)
               | Inr (StillNeeded NeededElements') \<Rightarrow>
                   (case getPredsLiveOutN fuel (Fn C) N (PerBlockInfo C)
                           (getPreds (Fn C) InstBB) Result of
                      Inl e \<Rightarrow> Inl e
                    | Inr (Result', P') \<Rightarrow>
                        Inr (fold (\<lambda>i R. if \<not> NeededElements' ! i \<or> getConditional R i = None
                                          then set_DIKind R i Yes else R)
                               [FirstElt..<FirstElt + NumElts] Result',
                             C\<lparr>PerBlockInfo := P'\<rparr>)))))"

section \<open>Invariants of the block map and of the checker\<close>

text \<open>
  The predicates used to state the properties of the dataflow: \<open>known_inv\<close> says that a
  block whose state is \<^verbatim>\<open>IsKnown\<close> caches a set with no Unknown element, \<open>sized\<close> that every
  cached set has \<open>N\<close> elements, \<open>closedCFG\<close> that the predecessors of a block of the function
  are blocks of the function, \<open>pending\<close> is the set of blocks of the function that are not
  being computed, and \<open>lo_rel\<close> relates the block map before and after a query: a Known
  block keeps its entry, a block is being computed after the query exactly when it was
  before, and the flag \<^verbatim>\<open>HasNonLoadUse\<close> is unchanged.
\<close>

definition known_inv :: "PerBlockInfo \<Rightarrow> bool" where
  "known_inv P = (\<forall>BB. LOState (P BB) = IsKnown \<longrightarrow> \<not> containsUnknownElements (Availability (P BB)))"

definition sized :: "nat \<Rightarrow> PerBlockInfo \<Rightarrow> bool" where
  "sized N P = (\<forall>BB. size_av (Availability (P BB)) = N)"

definition pending :: "SILFunction \<Rightarrow> PerBlockInfo \<Rightarrow> SILBasicBlock set" where
  "pending F P = {BB \<in> set (getBlocks F). LOState (P BB) \<noteq> IsComputingLiveOut}"

definition closedCFG :: "SILFunction \<Rightarrow> bool" where
  "closedCFG F = (\<forall>BB \<in> set (getBlocks F). set (getPreds F BB) \<subseteq> set (getBlocks F))"

definition lo_rel :: "PerBlockInfo \<Rightarrow> PerBlockInfo \<Rightarrow> bool" where
  "lo_rel P P' = (\<forall>BB. (LOState (P BB) = IsKnown \<longrightarrow> P' BB = P BB)
      \<and> (LOState (P' BB) = IsComputingLiveOut \<longleftrightarrow> LOState (P BB) = IsComputingLiveOut)
      \<and> HasNonLoadUse (P' BB) = HasNonLoadUse (P BB))"

definition lo_post :: "PerBlockInfo \<Rightarrow> error + ('r \<times> PerBlockInfo) \<Rightarrow> bool" where
  "lo_post P res = (case res of Inl e \<Rightarrow> False | Inr (R, P') \<Rightarrow> lo_rel P P')"

definition lo_post1 :: "PerBlockInfo \<Rightarrow> error + (DIKind option \<times> PerBlockInfo) \<Rightarrow> bool" where
  "lo_post1 P res = (case res of Inl e \<Rightarrow> False
      | Inr (R, P') \<Rightarrow> sized 1 P' \<and> known_inv P' \<and> lo_rel P P')"

definition wf_uses :: "LifetimeChecker \<Rightarrow> bool" where
  "wf_uses C = (\<forall>I It. NonLoadUses C I = Some It \<and> I \<noteq> MemoryInst (TheMemory C) \<longrightarrow>
      It < length (Uses C)
      \<and> FirstElement (Uses C ! It) + NumElements (Uses C ! It) \<le> MemoryNumElements (TheMemory C))"

definition wf_checker :: "LifetimeChecker \<Rightarrow> bool" where
  "wf_checker C = (closedCFG (Fn C)
      \<and> sized (MemoryNumElements (TheMemory C)) (PerBlockInfo C)
      \<and> known_inv (PerBlockInfo C) \<and> wf_uses C)"

definition window_defined :: "nat \<Rightarrow> nat \<Rightarrow> AvailabilitySet \<Rightarrow> bool" where
  "window_defined FirstElt NumElts R =
     (\<forall>i. FirstElt \<le> i \<and> i < FirstElt + NumElts \<longrightarrow> getConditional R i \<noteq> None)"

definition liveness_post :: "LifetimeChecker \<Rightarrow> nat \<Rightarrow> nat
      \<Rightarrow> error + (AvailabilitySet \<times> LifetimeChecker) \<Rightarrow> bool" where
  "liveness_post C FirstElt NumElts res =
     (case res of
        Inl e \<Rightarrow> False
      | Inr (R, C') \<Rightarrow>
          size_av R = MemoryNumElements (TheMemory C)
          \<and> window_defined FirstElt NumElts R
          \<and> wf_checker C'
          \<and> C' = C\<lparr>PerBlockInfo := PerBlockInfo C'\<rparr>
          \<and> lo_rel (PerBlockInfo C) (PerBlockInfo C'))"

definition ctor_inv :: "nat \<Rightarrow> LifetimeChecker \<Rightarrow> bool" where
  "ctor_inv N C = (sized N (PerBlockInfo C) \<and> known_inv (PerBlockInfo C))"

text \<open>
  The two steps of \<^verbatim>\<open>getLivenessAtInst\<close> in front of its last loop, by name, as they stand
  in its definition: the scan of the block of the instruction, and the merge of the
  live-outs of the predecessors of that block into an all-Unknown set. They are used to
  state what the last loop does with an element that the merge has left Unknown.
\<close>

definition localScan1 :: "LifetimeChecker \<Rightarrow> SILInstruction \<Rightarrow> DIKind option" where
  "localScan1 C I =
     (if HasNonLoadUse (PerBlockInfo C (getParent (Fn C) I))
      then scanBlock1 C (instsBefore (Fn C) I) else None)"

definition predsMerge1 :: "nat \<Rightarrow> LifetimeChecker \<Rightarrow> SILInstruction
      \<Rightarrow> error + (DIKind option \<times> PerBlockInfo)" where
  "predsMerge1 fuel C I =
     getPredsLiveOut1 fuel (Fn C) (PerBlockInfo C) (getPreds (Fn C) (getParent (Fn C) I)) None"

definition localScanN :: "LifetimeChecker \<Rightarrow> SILInstruction \<Rightarrow> nat \<Rightarrow> nat \<Rightarrow> error + scan_result" where
  "localScanN C I FirstElt NumElts =
     (let N = MemoryNumElements (TheMemory C);
          NeededElements = set_range (replicate N False) FirstElt (FirstElt + NumElts) True
      in if HasNonLoadUse (PerBlockInfo C (getParent (Fn C) I))
         then scanBlockN C FirstElt NumElts (AvailabilitySet N) NeededElements (instsBefore (Fn C) I)
         else Inr (StillNeeded NeededElements))"

definition predsMergeN :: "nat \<Rightarrow> LifetimeChecker \<Rightarrow> SILInstruction
      \<Rightarrow> error + (AvailabilitySet \<times> PerBlockInfo)" where
  "predsMergeN fuel C I =
     (let N = MemoryNumElements (TheMemory C)
      in getPredsLiveOutN fuel (Fn C) N (PerBlockInfo C) (getPreds (Fn C) (getParent (Fn C) I))
           (AvailabilitySet N))"
section \<open>The state transitions of a live-out query\<close>

text \<open>
  The two pairs of functions of the live-out dataflow once more, returning in addition the
  list of the assignments to \<^verbatim>\<open>LOState\<close> that the query makes, in the order in which it
  makes them: each entry is the block and the state written to it. The setters
  \<^verbatim>\<open>setBlockAvailability\<close> and \<^verbatim>\<open>setBlockAvailability1\<close> write \<^verbatim>\<open>IsKnown\<close>. Apart from the list
  the text of the functions is the one above.
\<close>

type_synonym LOTrace = "(SILBasicBlock \<times> LiveOutStateTy) list"

fun getLiveOutN_trace :: "nat \<Rightarrow> SILFunction \<Rightarrow> nat \<Rightarrow> PerBlockInfo \<Rightarrow> SILBasicBlock
      \<Rightarrow> error + ((AvailabilitySet \<times> PerBlockInfo) \<times> LOTrace)"
  and getPredsLiveOutN_trace :: "nat \<Rightarrow> SILFunction \<Rightarrow> nat \<Rightarrow> PerBlockInfo \<Rightarrow> SILBasicBlock list
      \<Rightarrow> AvailabilitySet \<Rightarrow> error + ((AvailabilitySet \<times> PerBlockInfo) \<times> LOTrace)" where
  "getLiveOutN_trace 0 F N P BB = Inl OutOfFuel"
| "getLiveOutN_trace (Suc n) F N P BB =
     (case LOState (P BB) of
        IsKnown \<Rightarrow> Inr ((Availability (P BB), P), [])
      | IsComputingLiveOut \<Rightarrow> Inr ((AvailabilitySet N, P), [])
      | IsUnknown \<Rightarrow>
          (let P1 = P(BB := (P BB)\<lparr>LOState := IsComputingLiveOut\<rparr>)
           in case getPredsLiveOutN_trace n F N P1 (getPreds F BB)
                     (AvailabilitySet N) of
                Inl e \<Rightarrow> Inl e
              | Inr ((Result, P2), tr) \<Rightarrow>
                  (let Result' = keepLocalYes N (Availability (P2 BB)) Result
                   in if \<not> containsUnknownElements Result' then
                        (case setBlockAvailability (P2 BB) Result' of
                           Inl e \<Rightarrow> Inl e
                         | Inr S \<Rightarrow> Inr ((Result', P2(BB := S)),
                                     (BB, IsComputingLiveOut) # tr @ [(BB, IsKnown)]))
                      else Inr ((Result', P2(BB := (P2 BB)\<lparr>LOState := IsUnknown\<rparr>)),
                                (BB, IsComputingLiveOut) # tr @ [(BB, IsUnknown)]))))"
| "getPredsLiveOutN_trace n F N P [] Result = Inr ((Result, P), [])"
| "getPredsLiveOutN_trace n F N P (Pred # Preds) Result =
     (case getLiveOutN_trace n F N P Pred of
        Inl e \<Rightarrow> Inl e
      | Inr ((R, P'), tr) \<Rightarrow>
          (case getPredsLiveOutN_trace n F N P' Preds (mergeIn Result R) of
             Inl e \<Rightarrow> Inl e
           | Inr (x, tr') \<Rightarrow> Inr (x, tr @ tr')))"

fun getLiveOut1_trace :: "nat \<Rightarrow> SILFunction \<Rightarrow> PerBlockInfo \<Rightarrow> SILBasicBlock
      \<Rightarrow> error + ((DIKind option \<times> PerBlockInfo) \<times> LOTrace)"
  and getPredsLiveOut1_trace :: "nat \<Rightarrow> SILFunction \<Rightarrow> PerBlockInfo \<Rightarrow> SILBasicBlock list
      \<Rightarrow> DIKind option \<Rightarrow> error + ((DIKind option \<times> PerBlockInfo) \<times> LOTrace)" where
  "getLiveOut1_trace 0 F P BB = Inl OutOfFuel"
| "getLiveOut1_trace (Suc n) F P BB =
     (case LOState (P BB) of
        IsKnown \<Rightarrow>
          (case get (Availability (P BB)) 0 of
             Inl e \<Rightarrow> Inl e
           | Inr K \<Rightarrow> Inr ((Some K, P), []))
      | IsComputingLiveOut \<Rightarrow> Inr ((None, P), [])
      | IsUnknown \<Rightarrow>
          (let LocalAV = getConditional (Availability (P BB)) 0 in
           if LocalAV = Some Yes then
             (case setBlockAvailability1 (P BB) Yes of
                Inl e \<Rightarrow> Inl e
              | Inr S \<Rightarrow> Inr ((LocalAV, P(BB := S)), [(BB, IsKnown)]))
           else
             (let P1 = P(BB := (P BB)\<lparr>LOState := IsComputingLiveOut\<rparr>);
                  Result = getConditional (Availability (P1 BB)) 0
              in case getPredsLiveOut1_trace n F P1 (getPreds F BB) Result of
                   Inl e \<Rightarrow> Inl e
                 | Inr ((Result', P2), tr) \<Rightarrow>
                     (case Result' of
                        Some K \<Rightarrow>
                          (case setBlockAvailability1 (P2 BB) K of
                             Inl e \<Rightarrow> Inl e
                           | Inr S \<Rightarrow> Inr ((Result', P2(BB := S)),
                                       (BB, IsComputingLiveOut) # tr @ [(BB, IsKnown)]))
                      | None \<Rightarrow> Inr ((Result', P2(BB := (P2 BB)\<lparr>LOState := IsUnknown\<rparr>)),
                                     (BB, IsComputingLiveOut) # tr @ [(BB, IsUnknown)])))))"
| "getPredsLiveOut1_trace n F P [] Result = Inr ((Result, P), [])"
| "getPredsLiveOut1_trace n F P (Pred # Preds) Result =
     (case getLiveOut1_trace n F P Pred of
        Inl e \<Rightarrow> Inl e
      | Inr ((R, P'), tr) \<Rightarrow>
          (case getPredsLiveOut1_trace n F P' Preds (mergeKinds Result R) of
             Inl e \<Rightarrow> Inl e
           | Inr (x, tr') \<Rightarrow> Inr (x, tr @ tr')))"

text \<open>
  The moves of the state of a block: from Unknown to being computed, and from being
  computed to Known or back to Unknown. \<open>walk s ws\<close> follows the states \<open>ws\<close> written to a
  block that starts in state \<open>s\<close> and gives the last state, or nothing if one of the writes
  is not such a move; \<open>writes B tr\<close> are the states written to block \<open>B\<close>; \<open>trace_rel\<close> says
  that the writes of a query to each block are moves that lead from its state before the
  query to its state after. \<open>transitionBound\<close> is a number that depends on the graph only:
  twice the power of one more than the largest number of predecessors of a block, to the
  number of blocks. \<open>yes_is_known\<close> says that a block of a one-element object whose element
  is locally Yes is Known, as the constructor leaves it; \<open>tr_post\<close> and \<open>tr_post1\<close> are the
  postconditions of a query that counts its writes.
\<close>

fun allowed :: "LiveOutStateTy \<Rightarrow> LiveOutStateTy \<Rightarrow> bool" where
  "allowed IsUnknown IsComputingLiveOut = True"
| "allowed IsComputingLiveOut IsKnown = True"
| "allowed IsComputingLiveOut IsUnknown = True"
| "allowed s s' = False"

fun walk :: "LiveOutStateTy \<Rightarrow> LiveOutStateTy list \<Rightarrow> LiveOutStateTy option" where
  "walk s [] = Some s"
| "walk s (w # ws) = (if allowed s w then walk w ws else None)"

definition writes :: "SILBasicBlock \<Rightarrow> LOTrace \<Rightarrow> LiveOutStateTy list" where
  "writes B tr = map snd (filter (\<lambda>t. fst t = B) tr)"

definition maxPreds :: "SILFunction \<Rightarrow> nat" where
  "maxPreds F = foldr (\<lambda>B m. max (length (getPreds F B)) m) (getBlocks F) 0"

definition transitionBound :: "SILFunction \<Rightarrow> nat" where
  "transitionBound F = 2 * Suc (maxPreds F) ^ length (getBlocks F)"

definition yes_is_known :: "PerBlockInfo \<Rightarrow> bool" where
  "yes_is_known Q = (\<forall>BB. LOState (Q BB) \<noteq> IsKnown
      \<longrightarrow> getConditional (Availability (Q BB)) 0 \<noteq> Some Yes)"

definition trace_rel :: "SILFunction \<Rightarrow> PerBlockInfo \<Rightarrow> PerBlockInfo \<Rightarrow> LOTrace \<Rightarrow> bool" where
  "trace_rel F P P' tr = (\<forall>B. walk (LOState (P B)) (writes B tr) = Some (LOState (P' B)))"

definition tr_post :: "SILFunction \<Rightarrow> nat \<Rightarrow> PerBlockInfo \<Rightarrow> error + (('r \<times> PerBlockInfo) \<times> LOTrace) \<Rightarrow> bool" where
  "tr_post F b P res = (case res of Inl e \<Rightarrow> False
      | Inr ((R, P'), tr) \<Rightarrow> lo_rel P P' \<and> trace_rel F P P' tr \<and> length tr \<le> b)"

definition tr_post1 :: "SILFunction \<Rightarrow> nat \<Rightarrow> PerBlockInfo
      \<Rightarrow> error + ((DIKind option \<times> PerBlockInfo) \<times> LOTrace) \<Rightarrow> bool" where
  "tr_post1 F b P res = (case res of Inl e \<Rightarrow> False
      | Inr ((R, P'), tr) \<Rightarrow> sized 1 P' \<and> known_inv P' \<and> yes_is_known P'
          \<and> lo_rel P P' \<and> trace_rel F P P' tr \<and> length tr \<le> b)"

definition ctor_inv1 :: "LifetimeChecker \<Rightarrow> bool" where
  "ctor_inv1 C = (sized 1 (PerBlockInfo C) \<and> yes_is_known (PerBlockInfo C))"
section \<open>The builder and the lowering of assign\<close>

text \<open>
  Modelled from the spec: \<^verbatim>\<open>SILBuilder\<close> is not part of the sources at hand. A builder
  inserts each instruction it creates in front of its insertion point, which is an
  instruction or the end of a block, and the insertion point stays where it is. A new
  instruction gets the next free number. \<^verbatim>\<open>emitReleaseValueOperation\<close> is taken to
  create one release of the value.
\<close>

datatype InsertionPoint = Before SILInstruction | AtEnd SILBasicBlock

fun getInsertionBB :: "SILFunction \<Rightarrow> InsertionPoint \<Rightarrow> SILBasicBlock" where
  "getInsertionBB F (Before J) = getParent F J"
| "getInsertionBB F (AtEnd BB) = BB"

fun insertAt :: "InsertionPoint \<Rightarrow> SILInstruction \<Rightarrow> SILInstruction list \<Rightarrow> SILInstruction list" where
  "insertAt (Before J) I Is = takeWhile (\<lambda>K. K \<noteq> J) Is @ I # dropWhile (\<lambda>K. K \<noteq> J) Is"
| "insertAt (AtEnd BB) I Is = Is @ [I]"

definition createInst :: "SILFunction \<Rightarrow> InsertionPoint \<Rightarrow> SILLocation \<Rightarrow> SILInst
      \<Rightarrow> SILInstruction \<times> SILFunction" where
  "createInst F ip L X =
     (let I = NextInst F; BB = getInsertionBB F ip
      in (I, F\<lparr>getInsts := (getInsts F)(BB := insertAt ip I (getInsts F BB)),
                getParent := (getParent F)(I := BB),
                getInst := (getInst F)(I := X),
                getLoc := (getLoc F)(I := L),
                NextInst := Suc I\<rparr>))"

definition createStore :: "SILFunction \<Rightarrow> InsertionPoint \<Rightarrow> SILLocation \<Rightarrow> SILValue \<Rightarrow> SILValue
      \<Rightarrow> SILInstruction \<times> SILFunction" where
  "createStore F ip L Src Dest = createInst F ip L (StoreInst Src Dest)"

text \<open>A load of an address yields a value of the object type.\<close>

definition createLoad :: "SILFunction \<Rightarrow> InsertionPoint \<Rightarrow> SILLocation \<Rightarrow> SILValue
      \<Rightarrow> SILInstruction \<times> SILFunction" where
  "createLoad F ip L Addr =
     (let (I, F') = createInst F ip L (LoadInst Addr)
      in (I, F'\<lparr>getType := (getType F')(SILValue I 0 := getObjectType (getType F Addr))\<rparr>))"

definition emitReleaseValueOperation :: "SILFunction \<Rightarrow> InsertionPoint \<Rightarrow> SILLocation \<Rightarrow> SILValue
      \<Rightarrow> SILInstruction \<times> SILFunction" where
  "emitReleaseValueOperation F ip L V = createInst F ip L (ReleaseValueInst V)"

definition eraseFromParent :: "SILFunction \<Rightarrow> SILInstruction \<Rightarrow> SILFunction" where
  "eraseFromParent F I =
     F\<lparr>getInsts := (getInsts F)(getParent F I := removeAll I (getInsts F (getParent F I)))\<rparr>"

text \<open>
  \<^verbatim>\<open>LowerAssignInstruction\<close>: the builder stands at the assign. The result lists the
  instructions the builder inserted, in the order of their creation. The parameter of the
  source is an \<^verbatim>\<open>AssignInst\<close>; any other instruction is not an argument of the function.
\<close>

definition LowerAssignInstruction :: "SILFunction \<Rightarrow> SILInstruction \<Rightarrow> bool
      \<Rightarrow> error + (SILInstruction list \<times> SILFunction)" where
  "LowerAssignInstruction F I isInitialization =
     (case getInst F I of
        AssignInst Src Dest \<Rightarrow>
          if isInitialization \<or> isTrivial (getType F Dest) then
            (let (S, F1) = createStore F (Before I) (getLoc F I) Src Dest
             in Inr ([S], eraseFromParent F1 I))
          else
            (let (IncomingVal, F1) = createLoad F (Before I) (getLoc F I) Dest;
                 (S, F2) = createStore F1 (Before I) (getLoc F I) Src Dest;
                 (R, F3) = emitReleaseValueOperation F2 (Before I) (getLoc F I)
                             (SILValue IncomingVal 0)
             in Inr ([IncomingVal, S, R], eraseFromParent F3 I))
      | _ \<Rightarrow> Inl AssertionFailure)"

section \<open>The use classifier and its diagnostics\<close>

text \<open>
  Modelled from the spec: the predicates of \<^verbatim>\<open>DIMemoryObjectInfo\<close> on the role of the
  memory object. A derived class has the synthetic super-init element as its last
  element, which is not an element of the memory.
\<close>

definition isAnyInitSelf :: "DIMemoryObjectInfo \<Rightarrow> bool" where
  "isAnyInitSelf M = (role M \<noteq> LocalVar \<and> role M \<noteq> GlobalVar)"

definition isDelegatingInit :: "DIMemoryObjectInfo \<Rightarrow> bool" where
  "isDelegatingInit M = (role M = DelegatingSelf)"

definition isEnumInitSelf :: "DIMemoryObjectInfo \<Rightarrow> bool" where
  "isEnumInitSelf M = (role M = EnumSelf)"

definition isClassInitSelf :: "DIMemoryObjectInfo \<Rightarrow> bool" where
  "isClassInitSelf M = (role M = RootClassSelf \<or> role M = DerivedClassSelf)"

definition isDerivedClassSelf :: "DIMemoryObjectInfo \<Rightarrow> bool" where
  "isDerivedClassSelf M = (role M = DerivedClassSelf)"

definition isAnyDerivedClassSelf :: "DIMemoryObjectInfo \<Rightarrow> bool" where
  "isAnyDerivedClassSelf M = (role M = DerivedClassSelf)"

definition getNumMemoryElements :: "DIMemoryObjectInfo \<Rightarrow> nat" where
  "getNumMemoryElements M = MemoryNumElements M - (if isDerivedClassSelf M then 1 else 0)"

definition window :: "DIMemoryUse \<Rightarrow> nat list" where
  "window Use = [FirstElement Use..<FirstElement Use + NumElements Use]"

definition onlyTouchesTrivialElements :: "DIMemoryUse \<Rightarrow> DIMemoryObjectInfo \<Rightarrow> bool" where
  "onlyTouchesTrivialElements Use M = list_all (trivialType M) (window Use)"

text \<open>The free function \<^verbatim>\<open>diagnose\<close> hands one diagnostic to the engine.\<close>

definition diagnose :: "LifetimeChecker \<Rightarrow> SILLocation \<Rightarrow> DiagID \<Rightarrow> LifetimeChecker" where
  "diagnose C loc D = C\<lparr>Diags := Diags C @ [Diagnostic (getSourceLoc loc) D]\<rparr>"

subsection \<open>Reachability from the entry\<close>

text \<open>
  \<^verbatim>\<open>isBlockIsReachableFromEntry\<close> fills the set of reachable blocks once, when it is
  empty, with a worklist that starts at the first block of the function; a block is
  popped from the back of the worklist and each successor that is new to the set is
  pushed. The loop runs on fuel.
\<close>

fun insertSuccs :: "SILBasicBlock list \<Rightarrow> SILBasicBlock list \<Rightarrow> SILBasicBlock list
      \<Rightarrow> SILBasicBlock list \<times> SILBasicBlock list" where
  "insertSuccs [] Reach Worklist = (Reach, Worklist)"
| "insertSuccs (Succ # Succs) Reach Worklist =
     (if Succ \<in> set Reach then insertSuccs Succs Reach Worklist
      else insertSuccs Succs (Reach @ [Succ]) (Worklist @ [Succ]))"

fun collectReachable :: "nat \<Rightarrow> SILFunction \<Rightarrow> SILBasicBlock list \<Rightarrow> SILBasicBlock list
      \<Rightarrow> error + SILBasicBlock list" where
  "collectReachable 0 F Reach Worklist = Inl OutOfFuel"
| "collectReachable (Suc n) F Reach Worklist =
     (if Worklist = [] then Inr Reach
      else (case insertSuccs (getSuccs F (last Worklist)) Reach (butlast Worklist) of
              (Reach', Worklist') \<Rightarrow> collectReachable n F Reach' Worklist'))"

definition isBlockIsReachableFromEntry :: "nat \<Rightarrow> LifetimeChecker \<Rightarrow> SILBasicBlock
      \<Rightarrow> error + (bool \<times> LifetimeChecker)" where
  "isBlockIsReachableFromEntry fuel C BB =
     (if BlocksReachableFromEntry C = [] then
        (case getBlocks (Fn C) of
           [] \<Rightarrow> Inl AssertionFailure
         | Entry # Rest \<Rightarrow>
             (case collectReachable fuel (Fn C) [Entry] [Entry] of
                Inl e \<Rightarrow> Inl e
              | Inr Reach \<Rightarrow> Inr (BB \<in> set Reach, C\<lparr>BlocksReachableFromEntry := Reach\<rparr>)))
      else Inr (BB \<in> set (BlocksReachableFromEntry C), C))"

definition shouldEmitError :: "nat \<Rightarrow> LifetimeChecker \<Rightarrow> SILInstruction
      \<Rightarrow> error + (bool \<times> LifetimeChecker)" where
  "shouldEmitError fuel C I =
     (case isBlockIsReachableFromEntry fuel C (getParent (Fn C) I) of
        Inl e \<Rightarrow> Inl e
      | Inr (reachable, C1) \<Rightarrow>
          if \<not> reachable then Inr (False, C1)
          else
            (let L = getSourceLoc (getLoc (Fn C1) I) in
             if L \<in> set (EmittedErrorLocs C1) then Inr (False, C1)
             else Inr (True, C1\<lparr>EmittedErrorLocs := EmittedErrorLocs C1 @ [L]\<rparr>)))"

subsection \<open>Reading a window of a liveness result\<close>

fun getAll :: "AvailabilitySet \<Rightarrow> nat list \<Rightarrow> error + DIKind list" where
  "getAll Liveness [] = Inr []"
| "getAll Liveness (i # is) =
     (case get Liveness i of
        Inl e \<Rightarrow> Inl e
      | Inr K \<Rightarrow> (case getAll Liveness is of Inl e \<Rightarrow> Inl e | Inr Ks \<Rightarrow> Inr (K # Ks)))"

text \<open>The index of the first element of the list that is not Yes, if there is one.\<close>

fun firstNotYes :: "AvailabilitySet \<Rightarrow> nat list \<Rightarrow> error + nat option" where
  "firstNotYes Liveness [] = Inr None"
| "firstNotYes Liveness (i # is) =
     (case get Liveness i of
        Inl e \<Rightarrow> Inl e
      | Inr K \<Rightarrow> if K = Yes then firstNotYes Liveness is else Inr (Some i))"

subsection \<open>Notes and errors\<close>

fun noteMembers :: "LifetimeChecker \<Rightarrow> SILInstruction \<Rightarrow> AvailabilitySet \<Rightarrow> nat list
      \<Rightarrow> error + LifetimeChecker" where
  "noteMembers C I Liveness [] = Inr C"
| "noteMembers C I Liveness (i # is) =
     (case get Liveness i of
        Inl e \<Rightarrow> Inl e
      | Inr K \<Rightarrow>
          if K = Yes then noteMembers C I Liveness is
          else if i = MemoryNumElements (TheMemory C) - 1 \<and> isDerivedClassSelf (TheMemory C)
          then noteMembers C I Liveness is
          else
            (let Loc = (case elementDecl (TheMemory C) i of
                          None \<Rightarrow> getLoc (Fn C) I
                        | Some Decl \<Rightarrow> if \<not> isImplicit Decl then Location (declLoc Decl)
                                       else getLoc (Fn C) I)
             in noteMembers (diagnose C Loc stored_property_not_initialized) I Liveness is))"

definition noteUninitializedMembers :: "nat \<Rightarrow> LifetimeChecker \<Rightarrow> DIMemoryUse
      \<Rightarrow> error + LifetimeChecker" where
  "noteUninitializedMembers fuel C Use =
     (if \<not> (isAnyInitSelf (TheMemory C) \<and> \<not> isDelegatingInit (TheMemory C))
      then Inl AssertionFailure
      else
        (case Inst Use of
           None \<Rightarrow> Inl AssertionFailure
         | Some I \<Rightarrow>
             (case getLivenessAtInst fuel C I (FirstElement Use) (NumElements Use) of
                Inl e \<Rightarrow> Inl e
              | Inr (Liveness, C1) \<Rightarrow> noteMembers C1 I Liveness (window Use))))"

text \<open>
  \<^verbatim>\<open>getUninitElementName\<close> looks for the first element of the window that is not Yes and
  asserts that there is one; the model returns its index in place of its name.
\<close>

definition getUninitElementName :: "nat \<Rightarrow> LifetimeChecker \<Rightarrow> DIMemoryUse
      \<Rightarrow> error + (nat \<times> LifetimeChecker)" where
  "getUninitElementName fuel C Use =
     (case Inst Use of
        None \<Rightarrow> Inl AssertionFailure
      | Some I \<Rightarrow>
          (case getLivenessAtInst fuel C I (FirstElement Use) (NumElements Use) of
             Inl e \<Rightarrow> Inl e
           | Inr (Liveness, C1) \<Rightarrow>
               (case firstNotYes Liveness (window Use) of
                  Inl e \<Rightarrow> Inl e
                | Inr None \<Rightarrow> Inl AssertionFailure
                | Inr (Some FirstUndefElement) \<Rightarrow>
                    if isDerivedClassSelf (TheMemory C1)
                       \<and> FirstUndefElement = MemoryNumElements (TheMemory C1) - 1
                    then Inl AssertionFailure
                    else Inr (FirstUndefElement, C1))))"

definition diagnoseInitError :: "nat \<Rightarrow> LifetimeChecker \<Rightarrow> DIMemoryUse \<Rightarrow> DiagID
      \<Rightarrow> error + LifetimeChecker" where
  "diagnoseInitError fuel C Use DiagMessage =
     (case Inst Use of
        None \<Rightarrow> Inl AssertionFailure
      | Some I \<Rightarrow>
          (case shouldEmitError fuel C I of
             Inl e \<Rightarrow> Inl e
           | Inr (emit, C1) \<Rightarrow>
               if \<not> emit then Inr C1
               else
                 (case getUninitElementName fuel C1 Use of
                    Inl e \<Rightarrow> Inl e
                  | Inr (Name, C2) \<Rightarrow>
                      (let DiagLoc = getLoc (Fn C2) I;
                           DiagLoc' = (if DiagLoc = NullLocation \<or> getSourceLoc DiagLoc = None
                                       then getLocation (Fn C2) else DiagLoc);
                           C3 = diagnose C2 DiagLoc' DiagMessage
                       in Inr (if \<not> isAnyInitSelf (TheMemory C3)
                               then diagnose C3 (MemoryLoc (TheMemory C3)) variable_defined_here
                               else C3)))))"

text \<open>
  The recurring sequence \<^verbatim>\<open>if (!shouldEmitError(Inst)) return; diagnose(...); return;\<close>,
  with or without the notes for the members.
\<close>

definition emitErrorAt :: "nat \<Rightarrow> LifetimeChecker \<Rightarrow> DIMemoryUse \<Rightarrow> SILInstruction \<Rightarrow> DiagID \<Rightarrow> bool
      \<Rightarrow> error + LifetimeChecker" where
  "emitErrorAt fuel C Use I D withNotes =
     (case shouldEmitError fuel C I of
        Inl e \<Rightarrow> Inl e
      | Inr (emit, C1) \<Rightarrow>
          if \<not> emit then Inr C1
          else (let C2 = diagnose C1 (getLoc (Fn C1) I) D
                in if withNotes then noteUninitializedMembers fuel C2 Use else Inr C2))"

subsection \<open>Is a use initialized\<close>

definition isInitializedAtUse :: "nat \<Rightarrow> LifetimeChecker \<Rightarrow> DIMemoryUse \<Rightarrow> bool
      \<Rightarrow> error + ((bool \<times> bool) \<times> LifetimeChecker)" where
  "isInitializedAtUse fuel C Use wantSuperInitDone =
     (case Inst Use of
        None \<Rightarrow> Inl AssertionFailure
      | Some I \<Rightarrow>
          (case getLivenessAtInst fuel C I (FirstElement Use) (NumElements Use) of
             Inl e \<Rightarrow> Inl e
           | Inr (Liveness, C1) \<Rightarrow>
               (case (if wantSuperInitDone
                         \<and> FirstElement Use + NumElements Use = MemoryNumElements (TheMemory C1)
                         \<and> isAnyDerivedClassSelf (TheMemory C1)
                      then (case get Liveness (size_av Liveness - 1) of
                              Inl e \<Rightarrow> Inl e
                            | Inr K \<Rightarrow> Inr (K = Yes))
                      else Inr True) of
                  Inl e \<Rightarrow> Inl e
                | Inr SuperInitDone \<Rightarrow>
                    (case firstNotYes Liveness (window Use) of
                       Inl e \<Rightarrow> Inl e
                     | Inr r \<Rightarrow> Inr ((r = None, SuperInitDone), C1)))))"

subsection \<open>Updating an instruction for its final kind\<close>

definition trackInserted :: "DIUseKind \<Rightarrow> nat \<Rightarrow> nat \<Rightarrow> SILInstruction \<Rightarrow> LifetimeChecker
      \<Rightarrow> LifetimeChecker" where
  "trackInserted K FirstElt NumElts I C =
     (case getInst (Fn C) I of
        StoreInst Src Dest \<Rightarrow>
          C\<lparr>NonLoadUses := (NonLoadUses C)(I \<mapsto> length (Uses C)),
            Uses := Uses C @ [\<lparr>Inst = Some I, Kind = K, FirstElement = FirstElt,
                               NumElements = NumElts\<rparr>]\<rparr>
      | LoadInst Addr \<Rightarrow>
          C\<lparr>Uses := Uses C @ [\<lparr>Inst = Some I, Kind = Load, FirstElement = FirstElt,
                               NumElements = NumElts\<rparr>]\<rparr>
      | _ \<Rightarrow> C)"

definition updateInstructionForInitState :: "LifetimeChecker \<Rightarrow> nat \<Rightarrow> error + LifetimeChecker" where
  "updateInstructionForInitState C UseID =
     (let InstInfo = Uses C ! UseID in
      case Inst InstInfo of
        None \<Rightarrow> Inl AssertionFailure
      | Some I \<Rightarrow>
          if Kind InstInfo \<noteq> Initialization \<and> Kind InstInfo \<noteq> SelfInit \<and> Kind InstInfo \<noteq> Assign
          then Inl AssertionFailure
          else
            (let InitKind = (Kind InstInfo = Initialization \<or> Kind InstInfo = SelfInit) in
             case getInst (Fn C) I of
               CopyAddrInst Src Dest isInit \<Rightarrow>
                 if isInit then Inl AssertionFailure
                 else Inr (C\<lparr>Fn := (Fn C)\<lparr>getInst := (getInst (Fn C))
                                  (I := CopyAddrInst Src Dest InitKind)\<rparr>\<rparr>)
             | StoreWeakInst Src Dest isInit \<Rightarrow>
                 if isInit then Inl AssertionFailure
                 else Inr (C\<lparr>Fn := (Fn C)\<lparr>getInst := (getInst (Fn C))
                                  (I := StoreWeakInst Src Dest InitKind)\<rparr>\<rparr>)
             | AssignInst Src Dest \<Rightarrow>
                 (case LowerAssignInstruction (Fn C) I InitKind of
                    Inl e \<Rightarrow> Inl e
                  | Inr (InsertedInsts, F') \<Rightarrow>
                      Inr (fold (trackInserted (Kind InstInfo) (FirstElement InstInfo)
                                   (NumElements InstInfo))
                             InsertedInsts
                             (C\<lparr>Uses := (Uses C)[UseID := InstInfo\<lparr>Inst := None\<rparr>],
                                NonLoadUses := (NonLoadUses C)(I := None),
                                Fn := F'\<rparr>)))
             | StoreInst Src Dest \<Rightarrow> Inr C
             | _ \<Rightarrow> Inl AssertionFailure))"

subsection \<open>Stores\<close>

text \<open>
  \<^verbatim>\<open>handleStoreUse\<close>. The first loop reads every element of the window with the unguarded
  \<^verbatim>\<open>get\<close>; the loop over the \<^verbatim>\<open>let\<close> elements stops at the first element of the window
  that is a \<^verbatim>\<open>let\<close> and not No. The error for it goes straight to \<^verbatim>\<open>diagnose\<close>.
\<close>

definition handleStoreUse :: "nat \<Rightarrow> LifetimeChecker \<Rightarrow> nat \<Rightarrow> error + LifetimeChecker" where
  "handleStoreUse fuel C UseID =
     (let InstInfo = Uses C ! UseID in
      case Inst InstInfo of
        None \<Rightarrow> Inl AssertionFailure
      | Some I \<Rightarrow>
          (case getLivenessAtInst fuel C I (FirstElement InstInfo) (NumElements InstInfo) of
             Inl e \<Rightarrow> Inl e
           | Inr (Liveness, C1) \<Rightarrow>
               (case getAll Liveness (window InstInfo) of
                  Inl e \<Rightarrow> Inl e
                | Inr Ks \<Rightarrow>
                    (let isFullyInitialized = list_all (\<lambda>K. K = Yes) Ks;
                         isFullyUninitialized = list_all (\<lambda>K. K = No) Ks
                     in if Kind InstInfo = PartialStore \<and> \<not> isFullyInitialized then
                          (if NumElements InstInfo \<noteq> 1 then Inl AssertionFailure
                           else diagnoseInitError fuel C1 InstInfo struct_not_fully_initialized)
                        else
                          (case (if Kind InstInfo = PartialStore \<or> \<not> isFullyUninitialized
                                 then find (\<lambda>(i, K). K \<noteq> No \<and> elementIsLet (TheMemory C1) i)
                                        (zip (window InstInfo) Ks)
                                 else None) of
                             Some (i, K) \<Rightarrow>
                               (let C2 = diagnose C1 (getLoc (Fn C1) I)
                                           immutable_property_already_initialized
                                in case elementDecl (TheMemory C1) i of
                                     None \<Rightarrow> Inl AssertionFailure
                                   | Some VD \<Rightarrow>
                                       Inr (if hasInit VD
                                            then diagnose C2 (Location (declLoc VD))
                                                   initial_value_provided_in_let_decl
                                            else C2))
                           | None \<Rightarrow>
                               if isFullyUninitialized then
                                 updateInstructionForInitState
                                   (C1\<lparr>Uses := (Uses C1)[UseID := InstInfo\<lparr>Kind := Initialization\<rparr>]\<rparr>)
                                   UseID
                               else if isFullyInitialized then
                                 updateInstructionForInitState
                                   (C1\<lparr>Uses := (Uses C1)[UseID := InstInfo\<lparr>Kind := Assign\<rparr>]\<rparr>)
                                   UseID
                               else if Kind InstInfo \<noteq> InitOrAssign then Inl AssertionFailure
                               else Inr (if \<not> onlyTouchesTrivialElements InstInfo (TheMemory C1)
                                         then C1\<lparr>HasConditionalInitAssignOrDestroys := True\<rparr>
                                         else C1))))))"

subsection \<open>The users of an instruction\<close>

text \<open>
  Modelled from the spec: the use lists of the intermediate representation. The users of
  an instruction are the instructions of the function that have one of its results as an
  operand, once per such operand, in the order of the blocks.
\<close>

fun operands :: "SILInst \<Rightarrow> SILValue list" where
  "operands (AllocStackInst T) = []"
| "operands (AllocBoxInst T) = []"
| "operands (MarkUninitializedInst V) = [V]"
| "operands (AssignInst Src Dest) = [Src, Dest]"
| "operands (StoreInst Src Dest) = [Src, Dest]"
| "operands (LoadInst V) = [V]"
| "operands (CopyAddrInst Src Dest b) = [Src, Dest]"
| "operands (StoreWeakInst Src Dest b) = [Src, Dest]"
| "operands (ReleaseValueInst V) = [V]"
| "operands (StrongReleaseInst V) = [V]"
| "operands (DestroyAddrInst V) = [V]"
| "operands (DeallocStackInst V) = [V]"
| "operands (DeallocBoxInst T V) = [V]"
| "operands (DeallocRefInst V) = [V]"
| "operands (ElementAddrInst n V) = [V]"
| "operands (IntegerLiteralInst T n) = []"
| "operands (BuiltinInst Name T Args) = Args"
| "operands (BranchInst BB) = []"
| "operands (CondBranchInst V T E) = [V]"
| "operands (ReturnInst V) = [V]"
| "operands (ApplyInst Callee Args) = Callee # Args"
| "operands (UpcastInst V) = [V]"
| "operands (ClassMethodInst V D) = [V]"
| "operands (FunctionRefInst D) = []"
| "operands (RefElementAddrInst V Fld) = [V]"
| "operands (MarkFunctionEscapeInst Vs) = Vs"
| "operands (AddressToPointerInst V) = [V]"
| "operands (OtherInst Vs) = Vs"

fun getDef :: "SILValue \<Rightarrow> SILInstruction option" where
  "getDef (SILValue I n) = Some I"
| "getDef (SILArgument n) = None"

definition allInsts :: "SILFunction \<Rightarrow> SILInstruction list" where
  "allInsts F = concat (map (getInsts F) (getBlocks F))"

definition getUsers :: "SILFunction \<Rightarrow> SILInstruction \<Rightarrow> SILInstruction list" where
  "getUsers F I =
     concat (map (\<lambda>J. map (\<lambda>V. J) (filter (\<lambda>V. getDef V = Some I) (operands (getInst F J))))
               (allInsts F))"

definition hasOneUse :: "SILFunction \<Rightarrow> SILInstruction \<Rightarrow> bool" where
  "hasOneUse F I = (length (getUsers F I) = 1)"

fun isReturnInst :: "SILInst \<Rightarrow> bool" where
  "isReturnInst (ReturnInst V) = True"
| "isReturnInst X = False"

fun isLoadInst :: "SILInst \<Rightarrow> bool" where
  "isLoadInst (LoadInst V) = True"
| "isLoadInst X = False"

fun isStoreInst :: "SILInst \<Rightarrow> bool" where
  "isStoreInst (StoreInst Src Dest) = True"
| "isStoreInst X = False"

fun isApplyInst :: "SILInst \<Rightarrow> bool" where
  "isApplyInst (ApplyInst Callee Args) = True"
| "isApplyInst X = False"

fun isUpcastInst :: "SILInst \<Rightarrow> bool" where
  "isUpcastInst (UpcastInst V) = True"
| "isUpcastInst X = False"

fun isRefElementAddrInst :: "SILInst \<Rightarrow> bool" where
  "isRefElementAddrInst (RefElementAddrInst V Fld) = True"
| "isRefElementAddrInst X = False"

fun isClassMethodInst :: "SILInst \<Rightarrow> bool" where
  "isClassMethodInst (ClassMethodInst V D) = True"
| "isClassMethodInst X = False"

text \<open>A load whose only user is a return.\<close>

definition isLoadUsedByReturnOnly :: "SILFunction \<Rightarrow> SILInstruction \<Rightarrow> bool" where
  "isLoadUsedByReturnOnly F I =
     (isLoadInst (getInst F I) \<and> hasOneUse F I
      \<and> isReturnInst (getInst F (hd (getUsers F I))))"

subsection \<open>Inout uses, load failures, super.init and self.init\<close>

definition handleInOutUse :: "nat \<Rightarrow> LifetimeChecker \<Rightarrow> DIMemoryUse \<Rightarrow> error + LifetimeChecker" where
  "handleInOutUse fuel C Use =
     (case isInitializedAtUse fuel C Use False of
        Inl e \<Rightarrow> Inl e
      | Inr ((initialized, s), C1) \<Rightarrow>
          if \<not> initialized then diagnoseInitError fuel C1 Use variable_inout_before_initialized
          else
            (case find (elementIsLet (TheMemory C1)) (window Use) of
               None \<Rightarrow> Inr C1
             | Some i \<Rightarrow>
                 (case Inst Use of
                    None \<Rightarrow> Inl AssertionFailure
                  | Some I \<Rightarrow> Inr (diagnose C1 (getLoc (Fn C1) I) immutable_property_passed_inout))))"

text \<open>
  The loop of \<^verbatim>\<open>handleLoadUseFailure\<close> over the users of an upcast keeps the first apply
  and the first class method; any other user, and a second apply that is not a class
  method, clears the class method and ends the loop.
\<close>

fun scanUpcastUsers :: "SILFunction \<Rightarrow> SILInstruction list \<Rightarrow> SILInstruction option
      \<Rightarrow> SILInstruction option \<Rightarrow> SILInstruction option \<times> SILInstruction option" where
  "scanUpcastUsers F [] AI CMI = (AI, CMI)"
| "scanUpcastUsers F (User # Users) AI CMI =
     (if isApplyInst (getInst F User) \<and> AI = None then scanUpcastUsers F Users (Some User) CMI
      else if isClassMethodInst (getInst F User) \<and> CMI = None
      then scanUpcastUsers F Users AI (Some User)
      else (AI, None))"

fun getMemberFuncDecl :: "SILInst \<Rightarrow> FuncDecl option" where
  "getMemberFuncDecl (ClassMethodInst V D) = D"
| "getMemberFuncDecl (FunctionRefInst D) = D"
| "getMemberFuncDecl X = None"

text \<open>The method that \<^verbatim>\<open>handleLoadUseFailure\<close> finds behind the use, if any.\<close>

definition findMethod :: "LifetimeChecker \<Rightarrow> SILInstruction \<Rightarrow> FuncDecl option" where
  "findMethod C I =
     (let F = Fn C;
          M1 = (if isUpcastInst (getInst F I) then
                  (case scanUpcastUsers F
                          (concat (map (\<lambda>J. map (\<lambda>V. J)
                                     (filter (\<lambda>V. V = SILValue I 0) (operands (getInst F J))))
                             (allInsts F))) None None of
                     (Some AI, Some CMI) \<Rightarrow> getMemberFuncDecl (getInst F CMI)
                   | _ \<Rightarrow> None)
                else None)
      in if isApplyInst (getInst F I) \<and> isClassInitSelf (TheMemory C) then
           (case getInst F I of
              ApplyInst Callee Args \<Rightarrow>
                (case getDef Callee of
                   None \<Rightarrow> M1
                 | Some D \<Rightarrow>
                     (case getInst F D of
                        ClassMethodInst V Decl \<Rightarrow> Decl
                      | FunctionRefInst Decl \<Rightarrow> Decl
                      | _ \<Rightarrow> M1))
            | _ \<Rightarrow> M1)
         else M1)"

definition handleLoadUseFailure :: "nat \<Rightarrow> LifetimeChecker \<Rightarrow> DIMemoryUse \<Rightarrow> bool
      \<Rightarrow> error + LifetimeChecker" where
  "handleLoadUseFailure fuel C Use IsSuperInitComplete =
     (case Inst Use of
        None \<Rightarrow> Inl AssertionFailure
      | Some I \<Rightarrow>
          (let F = Fn C; M = TheMemory C in
           if isLoadUsedByReturnOnly F I \<and> isEnumInitSelf M then
             emitErrorAt fuel C Use I return_from_init_without_initing_self False
           else if isLoadUsedByReturnOnly F I \<and> isAnyInitSelf M \<and> \<not> isClassInitSelf M
                   \<and> \<not> isDelegatingInit M then
             emitErrorAt fuel C Use I return_from_init_without_initing_stored_properties True
           else if isReturnInst (getInst F I) \<and> isAnyInitSelf M then
             (if \<not> IsSuperInitComplete
              then emitErrorAt fuel C Use I superselfinit_not_called_before_return False
              else emitErrorAt fuel C Use I return_from_init_without_initing_stored_properties True)
           else if isUpcastInst (getInst F I) \<and> hasOneUse F I \<and> \<not> IsSuperInitComplete
                   \<and> isRefElementAddrInst (getInst F (hd (getUsers F I))) then
             emitErrorAt fuel C Use I self_use_before_fully_init False
           else if findMethod C I \<noteq> None then
             emitErrorAt fuel C Use I self_use_before_fully_init IsSuperInitComplete
           else if \<not> IsSuperInitComplete then
             emitErrorAt fuel C Use I self_before_superselfinit False
           else if isApplyInst (getInst F I) \<and> isClassInitSelf M then
             emitErrorAt fuel C Use I use_of_self_before_fully_init True
           else if isLoadInst (getInst F I) \<and> isAnyInitSelf M \<and> \<not> isClassInitSelf M then
             emitErrorAt fuel C Use I use_of_self_before_fully_init True
           else diagnoseInitError fuel C Use variable_used_before_initialized))"

definition handleSuperInitUse :: "nat \<Rightarrow> LifetimeChecker \<Rightarrow> DIMemoryUse \<Rightarrow> error + LifetimeChecker" where
  "handleSuperInitUse fuel C InstInfo =
     (case Inst InstInfo of
        None \<Rightarrow> Inl AssertionFailure
      | Some I \<Rightarrow>
          if \<not> isApplyInst (getInst (Fn C) I) then Inl AssertionFailure
          else
            (let N = MemoryNumElements (TheMemory C) in
             case getLivenessAtInst fuel C I 0 N of
               Inl e \<Rightarrow> Inl e
             | Inr (Liveness, C1) \<Rightarrow>
                 (case get Liveness (N - 1) of
                    Inl e \<Rightarrow> Inl e
                  | Inr K \<Rightarrow>
                      if K \<noteq> No then
                        (case shouldEmitError fuel C1 I of
                           Inl e \<Rightarrow> Inl e
                         | Inr (emit, C2) \<Rightarrow>
                             Inr (if emit then diagnose C2 (getLoc (Fn C2) I) selfinit_multiple_times
                                  else C2))
                      else
                        (case firstNotYes Liveness [0..<N - 1] of
                           Inl e \<Rightarrow> Inl e
                         | Inr None \<Rightarrow> Inr C1
                         | Inr (Some i) \<Rightarrow>
                             diagnoseInitError fuel C1 InstInfo
                               (if getSourceLoc (getLoc (Fn C1) I) = None
                                then ivar_not_initialized_at_implicit_superinit
                                else ivar_not_initialized_at_superinit)))))"

definition handleSelfInitUse :: "nat \<Rightarrow> LifetimeChecker \<Rightarrow> nat \<Rightarrow> error + LifetimeChecker" where
  "handleSelfInitUse fuel C UseID =
     (let InstInfo = Uses C ! UseID in
      case Inst InstInfo of
        None \<Rightarrow> Inl AssertionFailure
      | Some I \<Rightarrow>
          if MemoryNumElements (TheMemory C) \<noteq> 1 then Inl AssertionFailure
          else
            (case getLivenessAtInst fuel C I 0 1 of
               Inl e \<Rightarrow> Inl e
             | Inr (Liveness, C1) \<Rightarrow>
                 (case get Liveness 0 of
                    Inl e \<Rightarrow> Inl e
                  | Inr K \<Rightarrow>
                      if K \<noteq> No then
                        (if EmittedErrorLocs C1 = [] then
                           (case shouldEmitError fuel C1 I of
                              Inl e \<Rightarrow> Inl e
                            | Inr (emit, C2) \<Rightarrow>
                                Inr (if emit
                                     then diagnose C2 (getLoc (Fn C2) I) selfinit_multiple_times
                                     else C2))
                         else Inr C1)
                      else
                        (case getInst (Fn C1) I of
                           CopyAddrInst Src Dest isInit \<Rightarrow>
                             Inr (C1\<lparr>Fn := (Fn C1)\<lparr>getInst := (getInst (Fn C1))
                                          (I := CopyAddrInst Src Dest True)\<rparr>\<rparr>)
                         | AssignInst Src Dest \<Rightarrow> updateInstructionForInitState C1 UseID
                         | _ \<Rightarrow> Inr C1))))"

subsection \<open>The loop of doIt over the uses\<close>

text \<open>One iteration of the loop, for the use at index \<open>i\<close>: the body of the switch.\<close>

definition classifyUse :: "nat \<Rightarrow> LifetimeChecker \<Rightarrow> nat \<Rightarrow> error + LifetimeChecker" where
  "classifyUse fuel C i =
     (let Use = Uses C ! i in
      case Inst Use of
        None \<Rightarrow> Inr C
      | Some I \<Rightarrow>
          (case Kind Use of
             Initialization \<Rightarrow> Inr C
           | Assign \<Rightarrow> Inr C
           | InitOrAssign \<Rightarrow>
               if isStoreInst (getInst (Fn C) I) then Inr C else handleStoreUse fuel C i
           | PartialStore \<Rightarrow> handleStoreUse fuel C i
           | IndirectIn \<Rightarrow>
               (case isInitializedAtUse fuel C Use True of
                  Inl e \<Rightarrow> Inl e
                | Inr ((initialized, IsSuperInitComplete), C1) \<Rightarrow>
                    if \<not> initialized then handleLoadUseFailure fuel C1 Use IsSuperInitComplete
                    else Inr C1)
           | Load \<Rightarrow>
               (case isInitializedAtUse fuel C Use True of
                  Inl e \<Rightarrow> Inl e
                | Inr ((initialized, IsSuperInitComplete), C1) \<Rightarrow>
                    if \<not> initialized then handleLoadUseFailure fuel C1 Use IsSuperInitComplete
                    else Inr C1)
           | InOutUse \<Rightarrow> handleInOutUse fuel C Use
           | Escape \<Rightarrow>
               (case isInitializedAtUse fuel C Use False of
                  Inl e \<Rightarrow> Inl e
                | Inr ((initialized, s), C1) \<Rightarrow>
                    if initialized then Inr C1
                    else if isDelegatingInit (TheMemory C1) then
                      (if isLoadUsedByReturnOnly (Fn C1) I \<or> isReturnInst (getInst (Fn C1) I)
                       then emitErrorAt fuel C1 Use I return_from_init_without_self_init False
                       else diagnoseInitError fuel C1 Use self_use_before_init_in_delegatinginit)
                    else
                      diagnoseInitError fuel C1 Use
                        (case getInst (Fn C1) I of
                           MarkFunctionEscapeInst Vs \<Rightarrow> global_variable_function_use_uninit
                         | AddressToPointerInst V \<Rightarrow> variable_addrtaken_before_initialized
                         | _ \<Rightarrow> variable_escape_before_initialized))
           | SuperInit \<Rightarrow> handleSuperInitUse fuel C Use
           | SelfInit \<Rightarrow> handleSelfInitUse fuel C i))"

text \<open>
  \<^verbatim>\<open>for (unsigned i = 0; i != Uses.size(); ++i)\<close>: the list of uses can grow while the loop
  runs, so the loop runs on fuel, one unit per iteration.
\<close>

fun classifyUses :: "nat \<Rightarrow> nat \<Rightarrow> LifetimeChecker \<Rightarrow> nat \<Rightarrow> error + LifetimeChecker" where
  "classifyUses 0 fuel C i = Inl OutOfFuel"
| "classifyUses (Suc n) fuel C i =
     (if i = length (Uses C) then Inr C
      else (case classifyUse fuel C i of
              Inl e \<Rightarrow> Inl e
            | Inr C' \<Rightarrow> classifyUses n fuel C' (Suc i)))"

section \<open>More of the builder\<close>

text \<open>
  Modelled from the spec: the remaining operations of the builder and of the blocks. An
  instruction with a result records the type of the result. A branch adds its edges to
  the successor and predecessor lists. \<^verbatim>\<open>splitBasicBlock\<close> moves the instructions from the
  insertion point to the end of the block into a new block, which follows the old one in
  the function and takes over its successors; a new block is appended to the function;
  \<^verbatim>\<open>moveBlockTo\<close> moves a block in front of another one.
\<close>

definition createAllocStack :: "SILFunction \<Rightarrow> InsertionPoint \<Rightarrow> SILLocation \<Rightarrow> SILType
      \<Rightarrow> SILInstruction \<times> SILFunction" where
  "createAllocStack F ip L T =
     (let (I, F') = createInst F ip L (AllocStackInst T)
      in (I, F'\<lparr>getType := (getType F')(SILValue I 1 := getAddressType T)\<rparr>))"

definition createDeallocStack :: "SILFunction \<Rightarrow> InsertionPoint \<Rightarrow> SILLocation \<Rightarrow> SILValue
      \<Rightarrow> SILInstruction \<times> SILFunction" where
  "createDeallocStack F ip L V = createInst F ip L (DeallocStackInst V)"

definition createIntegerLiteral :: "SILFunction \<Rightarrow> InsertionPoint \<Rightarrow> SILLocation \<Rightarrow> SILType \<Rightarrow> nat
      \<Rightarrow> SILInstruction \<times> SILFunction" where
  "createIntegerLiteral F ip L T n =
     (let (I, F') = createInst F ip L (IntegerLiteralInst T n)
      in (I, F'\<lparr>getType := (getType F')(SILValue I 0 := T)\<rparr>))"

definition createBuiltin :: "SILFunction \<Rightarrow> InsertionPoint \<Rightarrow> SILLocation \<Rightarrow> string \<Rightarrow> SILType
      \<Rightarrow> SILValue list \<Rightarrow> SILInstruction \<times> SILFunction" where
  "createBuiltin F ip L Name T Args =
     (let (I, F') = createInst F ip L (BuiltinInst Name T Args)
      in (I, F'\<lparr>getType := (getType F')(SILValue I 0 := T)\<rparr>))"

definition createDeallocRef :: "SILFunction \<Rightarrow> InsertionPoint \<Rightarrow> SILLocation \<Rightarrow> SILValue
      \<Rightarrow> SILInstruction \<times> SILFunction" where
  "createDeallocRef F ip L V = createInst F ip L (DeallocRefInst V)"

definition createDeallocBox :: "SILFunction \<Rightarrow> InsertionPoint \<Rightarrow> SILLocation \<Rightarrow> SILType \<Rightarrow> SILValue
      \<Rightarrow> SILInstruction \<times> SILFunction" where
  "createDeallocBox F ip L T V = createInst F ip L (DeallocBoxInst T V)"

definition createBranch :: "SILFunction \<Rightarrow> InsertionPoint \<Rightarrow> SILLocation \<Rightarrow> SILBasicBlock
      \<Rightarrow> SILInstruction \<times> SILFunction" where
  "createBranch F ip L Dest =
     (let (I, F') = createInst F ip L (BranchInst Dest); BB = getInsertionBB F ip
      in (I, F'\<lparr>getSuccs := (getSuccs F')(BB := getSuccs F' BB @ [Dest]),
                 getPreds := (getPreds F')(Dest := getPreds F' Dest @ [BB])\<rparr>))"

definition createCondBranch :: "SILFunction \<Rightarrow> InsertionPoint \<Rightarrow> SILLocation \<Rightarrow> SILValue
      \<Rightarrow> SILBasicBlock \<Rightarrow> SILBasicBlock \<Rightarrow> SILInstruction \<times> SILFunction" where
  "createCondBranch F ip L Cond TrueBB FalseBB =
     (let (I, F') = createInst F ip L (CondBranchInst Cond TrueBB FalseBB);
          BB = getInsertionBB F ip;
          F1 = F'\<lparr>getSuccs := (getSuccs F')(BB := getSuccs F' BB @ [TrueBB, FalseBB])\<rparr>;
          F2 = F1\<lparr>getPreds := (getPreds F1)(TrueBB := getPreds F1 TrueBB @ [BB])\<rparr>
      in (I, F2\<lparr>getPreds := (getPreds F2)(FalseBB := getPreds F2 FalseBB @ [BB])\<rparr>))"

fun movedInsts :: "InsertionPoint \<Rightarrow> SILInstruction list \<Rightarrow> SILInstruction list" where
  "movedInsts (Before J) Is = dropWhile (\<lambda>K. K \<noteq> J) Is"
| "movedInsts (AtEnd BB) Is = []"

fun keptInsts :: "InsertionPoint \<Rightarrow> SILInstruction list \<Rightarrow> SILInstruction list" where
  "keptInsts (Before J) Is = takeWhile (\<lambda>K. K \<noteq> J) Is"
| "keptInsts (AtEnd BB) Is = Is"

fun insertAfter :: "SILBasicBlock \<Rightarrow> SILBasicBlock \<Rightarrow> SILBasicBlock list \<Rightarrow> SILBasicBlock list" where
  "insertAfter BB New [] = [New]"
| "insertAfter BB New (B # Bs) = (if B = BB then B # New # Bs else B # insertAfter BB New Bs)"

fun insertBefore :: "SILBasicBlock \<Rightarrow> SILBasicBlock \<Rightarrow> SILBasicBlock list \<Rightarrow> SILBasicBlock list" where
  "insertBefore BB New [] = [New]"
| "insertBefore BB New (B # Bs) = (if B = BB then New # B # Bs else B # insertBefore BB New Bs)"

definition splitBasicBlock :: "SILFunction \<Rightarrow> InsertionPoint \<Rightarrow> SILBasicBlock \<times> SILFunction" where
  "splitBasicBlock F ip =
     (let BB = getInsertionBB F ip; New = NextBlock F;
          Moved = movedInsts ip (getInsts F BB)
      in (New,
          F\<lparr>getBlocks := insertAfter BB New (getBlocks F),
            getInsts := (getInsts F)(BB := keptInsts ip (getInsts F BB), New := Moved),
            getParent := (\<lambda>I. if I \<in> set Moved then New else getParent F I),
            getSuccs := (getSuccs F)(BB := [], New := getSuccs F BB),
            getPreds := (\<lambda>S. if S = New then []
                              else map (\<lambda>P. if P = BB then New else P) (getPreds F S)),
            NextBlock := Suc New\<rparr>))"

definition newBasicBlock :: "SILFunction \<Rightarrow> SILBasicBlock \<times> SILFunction" where
  "newBasicBlock F =
     (let New = NextBlock F
      in (New, F\<lparr>getBlocks := getBlocks F @ [New],
                  getInsts := (getInsts F)(New := []),
                  getSuccs := (getSuccs F)(New := []),
                  getPreds := (getPreds F)(New := []),
                  NextBlock := Suc New\<rparr>))"

definition moveBlockTo :: "SILFunction \<Rightarrow> SILBasicBlock \<Rightarrow> SILBasicBlock \<Rightarrow> SILFunction" where
  "moveBlockTo F BB IP = F\<lparr>getBlocks := insertBefore IP BB (removeAll BB (getBlocks F))\<rparr>"

definition atBegin :: "SILFunction \<Rightarrow> SILBasicBlock \<Rightarrow> InsertionPoint" where
  "atBegin F BB = (case getInsts F BB of [] \<Rightarrow> AtEnd BB | I # Is \<Rightarrow> Before I)"

text \<open>
  Modelled from the spec: \<^verbatim>\<open>emitDestroyAddr\<close> of the builder, which may return a null
  pointer in the source, is taken to emit one destroy of the address, and
  \<^verbatim>\<open>emitElementAddress\<close> of the memory object to emit one instruction that computes the
  address of the element from the address of the memory object.
\<close>

definition emitDestroyAddr :: "SILFunction \<Rightarrow> InsertionPoint \<Rightarrow> SILLocation \<Rightarrow> SILValue
      \<Rightarrow> SILInstruction option \<times> SILFunction" where
  "emitDestroyAddr F ip L V = (let (I, F') = createInst F ip L (DestroyAddrInst V) in (Some I, F'))"

definition emitElementAddress :: "DIMemoryObjectInfo \<Rightarrow> nat \<Rightarrow> SILLocation \<Rightarrow> SILFunction
      \<Rightarrow> InsertionPoint \<Rightarrow> SILValue \<times> SILFunction" where
  "emitElementAddress M Elt L F ip =
     (let (I, F') = createInst F ip L (ElementAddrInst Elt (SILValue (MemoryInst M) 0))
      in (SILValue I 0,
          F'\<lparr>getType := (getType F')(SILValue I 0 := SILType (NominalType Elt (trivialType M Elt)) True)\<rparr>))"

section \<open>The CFG diamond\<close>

text \<open>
  \<^verbatim>\<open>InsertCFGDiamond\<close>. The result is the true block, the false block if one was asked
  for, the continuation block, the function, and the insertion point the builder is left
  at: the start of the continuation block.
\<close>

definition InsertCFGDiamond :: "SILFunction \<Rightarrow> InsertionPoint \<Rightarrow> SILValue \<Rightarrow> SILLocation \<Rightarrow> bool
      \<Rightarrow> (SILBasicBlock \<times> SILBasicBlock option \<times> SILBasicBlock) \<times> SILFunction \<times> InsertionPoint" where
  "InsertCFGDiamond F ip Cond Loc wantFalseBB =
     (let StartBB = getInsertionBB F ip;
          (ContBB, F1) = splitBasicBlock F ip;
          (TrueBB, F2) = newBasicBlock F1;
          F3 = moveBlockTo F2 TrueBB ContBB;
          (B1, F4) = createBranch F3 (AtEnd TrueBB) Loc ContBB;
          (FalseBB, FalseDest, F7) =
            (if \<not> wantFalseBB then (None, ContBB, F4)
             else (let (FD, F5) = newBasicBlock F4;
                       F6 = moveBlockTo F5 FD ContBB;
                       (B2, F7) = createBranch F6 (AtEnd FD) Loc ContBB
                   in (Some FD, FD, F7)));
          (CB, F8) = createCondBranch F7 (AtEnd StartBB) Loc Cond TrueBB FalseDest
      in ((TrueBB, FalseBB, ContBB), F8, atBegin F8 ContBB))"

section \<open>Releases of a partially initialized object\<close>

text \<open>
  The names of the builtin functions, \<^verbatim>\<open>getBinaryFunction\<close> and
  \<^verbatim>\<open>getTruncateToI1Function\<close>; \<^verbatim>\<open>utostr\<close> writes a number in decimal. Both cast the type to a
  builtin integer type, which asserts.
\<close>

fun utostr :: "nat \<Rightarrow> string" where
  "utostr n = (if n < 10 then [char_of (48 + n)]
               else utostr (n div 10) @ [char_of (48 + n mod 10)])"

declare utostr.simps [simp del]

fun getFixedWidth :: "SILType \<Rightarrow> error + nat" where
  "getFixedWidth (SILType (BuiltinIntegerType w) a) = Inr w"
| "getFixedWidth (SILType (NominalType n t) a) = Inl AssertionFailure"

definition getBinaryFunction :: "string \<Rightarrow> SILType \<Rightarrow> error + string" where
  "getBinaryFunction Name IntSILTy =
     (case getFixedWidth IntSILTy of
        Inl e \<Rightarrow> Inl e
      | Inr NumBits \<Rightarrow> Inr (Name @ ''_Int'' @ utostr NumBits))"

definition getTruncateToI1Function :: "SILType \<Rightarrow> error + string" where
  "getTruncateToI1Function IntSILTy =
     (case getFixedWidth IntSILTy of
        Inl e \<Rightarrow> Inl e
      | Inr NumBits \<Rightarrow> Inr (''trunc_Int'' @ utostr NumBits @ ''_Int1''))"

text \<open>
  The condition of a diamond, from the loaded bitmap: with more than one element the
  bitmap is shifted right by the index of the element, unless the index is 0, and
  truncated to one bit; with one element the bitmap is the condition. The source caches
  the two names, the model computes them where they are used.
\<close>

definition emitCondVal :: "SILFunction \<Rightarrow> InsertionPoint \<Rightarrow> SILLocation \<Rightarrow> nat \<Rightarrow> nat \<Rightarrow> SILValue
      \<Rightarrow> error + (SILValue \<times> SILFunction)" where
  "emitCondVal F ip Loc NumMemoryElements Elt Mask =
     (if NumMemoryElements = 1 then Inr (Mask, F)
      else
        (case (if Elt \<noteq> 0 then
                 (case getBinaryFunction ''lshr'' (getType F Mask) of
                    Inl e \<Rightarrow> Inl e
                  | Inr ShiftRightFn \<Rightarrow>
                      (let (Amt, F1) = createIntegerLiteral F ip Loc (getType F Mask) Elt;
                           (Sh, F2) = createBuiltin F1 ip Loc ShiftRightFn (getType F Mask)
                                        [Mask, SILValue Amt 0]
                       in Inr (SILValue Sh 0, F2)))
               else Inr (Mask, F)) of
           Inl e \<Rightarrow> Inl e
         | Inr (CondVal, F2) \<Rightarrow>
             (case getTruncateToI1Function (getType F2 CondVal) of
                Inl e \<Rightarrow> Inl e
              | Inr TruncateFn \<Rightarrow>
                  (let (T, F3) = createBuiltin F2 ip Loc TruncateFn
                                   (SILType (BuiltinIntegerType 1) False) [CondVal]
                   in Inr (SILValue T 0, F3)))))"

definition pushRelease :: "SILInstruction option \<Rightarrow> SILInstruction option list
      \<Rightarrow> SILInstruction option list" where
  "pushRelease DA Rs = (case DA of None \<Rightarrow> Rs | Some D \<Rightarrow> Rs @ [Some D])"

text \<open>
  The body of the loop of \<^verbatim>\<open>handleConditionalDestroys\<close> over the elements of the memory
  object, for one release: the state of the loop is the loaded bitmap, if it is loaded,
  and the checker.
\<close>

definition destroyElement :: "SILValue option \<Rightarrow> SILInstruction \<Rightarrow> AvailabilitySet \<Rightarrow> nat
      \<Rightarrow> SILValue option \<times> LifetimeChecker \<Rightarrow> error + (SILValue option \<times> LifetimeChecker)" where
  "destroyElement ControlVariableAddr Release Avail Elt st =
     (case st of (LoadedMask, C) \<Rightarrow>
      (let Loc = getLoc (Fn C) Release; M = TheMemory C in
       case get Avail Elt of
         Inl e \<Rightarrow> Inl e
       | Inr No \<Rightarrow> Inr (LoadedMask, C)
       | Inr Yes \<Rightarrow>
           (let (EltPtr, F1) = emitElementAddress M Elt Loc (Fn C) (Before Release);
                (DA, F2) = emitDestroyAddr F1 (Before Release) Loc EltPtr
            in Inr (LoadedMask, C\<lparr>Fn := F2, Releases := pushRelease DA (Releases C)\<rparr>))
       | Inr Partial \<Rightarrow>
           (case (case LoadedMask of
                    Some Mask \<Rightarrow> Inr (Mask, Fn C)
                  | None \<Rightarrow>
                      (case ControlVariableAddr of
                         None \<Rightarrow> Inl AssertionFailure
                       | Some Addr \<Rightarrow>
                           (let (L, F1) = createLoad (Fn C) (Before Release) Loc Addr
                            in Inr (SILValue L 0, F1)))) of
              Inl e \<Rightarrow> Inl e
            | Inr (Mask, F1) \<Rightarrow>
                (case emitCondVal F1 (Before Release) Loc (getNumMemoryElements M) Elt Mask of
                   Inl e \<Rightarrow> Inl e
                 | Inr (CondVal, F2) \<Rightarrow>
                     (let ((CondDestroyBlock, FalseBB, ContBlock), F3, ip) =
                            InsertCFGDiamond F2 (Before Release) CondVal Loc False;
                          (EltPtr, F4) = emitElementAddress M Elt Loc F3 (atBegin F3 CondDestroyBlock);
                          (DA, F5) = emitDestroyAddr F4 (atBegin F3 CondDestroyBlock) Loc EltPtr
                      in Inr (Some Mask,
                              C\<lparr>Fn := F5, Releases := pushRelease DA (Releases C)\<rparr>))))))"

fun destroyElements :: "SILValue option \<Rightarrow> SILInstruction \<Rightarrow> AvailabilitySet \<Rightarrow> nat list
      \<Rightarrow> SILValue option \<times> LifetimeChecker \<Rightarrow> error + (SILValue option \<times> LifetimeChecker)" where
  "destroyElements Ctl Release Avail [] st = Inr st"
| "destroyElements Ctl Release Avail (Elt # Elts) st =
     (case destroyElement Ctl Release Avail Elt st of
        Inl e \<Rightarrow> Inl e
      | Inr st' \<Rightarrow> destroyElements Ctl Release Avail Elts st')"

text \<open>
  The early release in a class initializer: \<^verbatim>\<open>dealloc_ref\<close> of the class pointer, loaded
  through the box if the storage is a box, and \<^verbatim>\<open>dealloc_box\<close> of the box. The sequence
  stands in \<^verbatim>\<open>processNonTrivialRelease\<close> and in \<^verbatim>\<open>handleConditionalDestroys\<close>.
\<close>

fun isAllocBox :: "SILFunction \<Rightarrow> SILValue \<Rightarrow> bool" where
  "isAllocBox F (SILValue I n) = (case getInst F I of AllocBoxInst T \<Rightarrow> True | _ \<Rightarrow> False)"
| "isAllocBox F (SILArgument n) = False"

fun withResult :: "SILValue \<Rightarrow> nat \<Rightarrow> SILValue" where
  "withResult (SILValue I n) k = SILValue I k"
| "withResult (SILArgument n) k = SILArgument n"

definition emitClassDealloc :: "LifetimeChecker \<Rightarrow> SILInstruction
      \<Rightarrow> error + (SILInstruction \<times> LifetimeChecker)" where
  "emitClassDealloc C Release =
     (case operands (getInst (Fn C) Release) of
        [] \<Rightarrow> Inl AssertionFailure
      | Op0 # Ops \<Rightarrow>
          (let F = Fn C; Loc = getLoc F Release;
               Pointer = (if isAllocBox F Op0 then withResult Op0 1 else Op0);
               (Pointer', F1) = (if isAddress (getType F Pointer)
                                 then (let (L, F1) = createLoad F (Before Release) Loc Pointer
                                       in (SILValue L 0, F1))
                                 else (Pointer, F));
               (Dealloc, F2) = createDeallocRef F1 (Before Release) Loc Pointer'
           in if isAllocBox F Op0 then
                (let (DB, F3) = createDeallocBox F2 (Before Release) Loc (getType F2 Pointer') Op0
                 in Inr (Dealloc, C\<lparr>Fn := F3, Releases := Releases C @ [Some DB]\<rparr>))
              else Inr (Dealloc, C\<lparr>Fn := F2\<rparr>)))"

text \<open>
  Modelled from the spec: \<^verbatim>\<open>recursivelyDeleteTriviallyDeadInstructions\<close> erases an
  instruction that has no user and no side effect, and then the instructions that define
  its operands, as long as they are dead too. The memory-defining marker is never dead.
\<close>

fun mayBeDead :: "SILInst \<Rightarrow> bool" where
  "mayBeDead (ElementAddrInst n V) = True"
| "mayBeDead (RefElementAddrInst V Fld) = True"
| "mayBeDead (UpcastInst V) = True"
| "mayBeDead (AddressToPointerInst V) = True"
| "mayBeDead (IntegerLiteralInst T n) = True"
| "mayBeDead (FunctionRefInst D) = True"
| "mayBeDead (ClassMethodInst V D) = True"
| "mayBeDead (LoadInst V) = True"
| "mayBeDead X = False"

fun deleteDead :: "nat \<Rightarrow> SILFunction \<Rightarrow> SILInstruction list \<Rightarrow> SILFunction" where
  "deleteDead 0 F Is = F"
| "deleteDead (Suc n) F [] = F"
| "deleteDead (Suc n) F (I # Is) =
     (if I \<in> set (allInsts F) \<and> getUsers F I = [] \<and> mayBeDead (getInst F I)
      then deleteDead n (eraseFromParent F I)
             (Is @ List.map_filter getDef (operands (getInst F I)))
      else deleteDead n F Is)"

definition recursivelyDeleteTriviallyDeadInstructions :: "SILFunction \<Rightarrow> SILInstruction \<Rightarrow> SILFunction" where
  "recursivelyDeleteTriviallyDeadInstructions F I = deleteDead (2 * NextInst F) F [I]"

definition handleConditionalDestroy :: "SILValue option \<Rightarrow> LifetimeChecker \<Rightarrow> nat \<times> AvailabilitySet
      \<Rightarrow> error + LifetimeChecker" where
  "handleConditionalDestroy ControlVariableAddr C CDElt =
     (case CDElt of (ReleaseID, Avail) \<Rightarrow>
      if length (Releases C) \<le> ReleaseID then Inl AssertionFailure
      else
        (case Releases C ! ReleaseID of
           None \<Rightarrow> Inl AssertionFailure
         | Some Release \<Rightarrow>
             (case operands (getInst (Fn C) Release) of
                [] \<Rightarrow> Inl AssertionFailure
              | Addr # Ops \<Rightarrow>
                  (case destroyElements ControlVariableAddr Release Avail
                          [0..<getNumMemoryElements (TheMemory C)] (None, C) of
                     Inl e \<Rightarrow> Inl e
                   | Inr (LoadedMask, C1) \<Rightarrow>
                       (case (if isClassInitSelf (TheMemory C1)
                              then (case emitClassDealloc C1 Release of
                                      Inl e \<Rightarrow> Inl e
                                    | Inr (Dealloc, C2) \<Rightarrow> Inr C2)
                              else Inr C1) of
                          Inl e \<Rightarrow> Inl e
                        | Inr C2 \<Rightarrow>
                            (let F1 = eraseFromParent (Fn C2) Release
                             in Inr (C2\<lparr>Fn := (case getDef Addr of
                                                   None \<Rightarrow> F1
                                                 | Some AddrI \<Rightarrow>
                                                     recursivelyDeleteTriviallyDeadInstructions F1 AddrI)\<rparr>)))))))"

fun handleConditionalDestroysLoop :: "SILValue option \<Rightarrow> LifetimeChecker
      \<Rightarrow> (nat \<times> AvailabilitySet) list \<Rightarrow> error + LifetimeChecker" where
  "handleConditionalDestroysLoop Ctl C [] = Inr C"
| "handleConditionalDestroysLoop Ctl C (CDElt # CDs) =
     (case handleConditionalDestroy Ctl C CDElt of
        Inl e \<Rightarrow> Inl e
      | Inr C' \<Rightarrow> handleConditionalDestroysLoop Ctl C' CDs)"

definition handleConditionalDestroys :: "SILValue option \<Rightarrow> LifetimeChecker \<Rightarrow> error + LifetimeChecker" where
  "handleConditionalDestroys ControlVariableAddr C =
     handleConditionalDestroysLoop ControlVariableAddr C (ConditionalDestroys C)"

section \<open>Processing the releases\<close>

fun isDestroyAddrInst :: "SILInst \<Rightarrow> bool" where
  "isDestroyAddrInst (DestroyAddrInst V) = True"
| "isDestroyAddrInst X = False"

fun isStrongReleaseInst :: "SILInst \<Rightarrow> bool" where
  "isStrongReleaseInst (StrongReleaseInst V) = True"
| "isStrongReleaseInst X = False"

fun isDeallocation :: "SILInst \<Rightarrow> bool" where
  "isDeallocation (DeallocStackInst V) = True"
| "isDeallocation (DeallocBoxInst T V) = True"
| "isDeallocation (DeallocRefInst V) = True"
| "isDeallocation X = False"

definition processNonTrivialRelease :: "nat \<Rightarrow> LifetimeChecker \<Rightarrow> nat \<Rightarrow> error + LifetimeChecker" where
  "processNonTrivialRelease fuel C ReleaseID =
     (if length (Releases C) \<le> ReleaseID then Inl AssertionFailure
      else
        (case Releases C ! ReleaseID of
           None \<Rightarrow> Inl AssertionFailure
         | Some Release \<Rightarrow>
             (let X = getInst (Fn C) Release in
              if isDeallocation X then Inr C
              else if \<not> (isStrongReleaseInst X \<or> isDestroyAddrInst X) then Inl AssertionFailure
              else
                (case getLivenessAtInst fuel C Release 0 (MemoryNumElements (TheMemory C)) of
                   Inl e \<Rightarrow> Inl e
                 | Inr (Avail, C1) \<Rightarrow>
                     if isAllYes Avail then Inr C1
                     else
                       (let C2 = (if isClassInitSelf (TheMemory C1)
                                  then diagnose C1 (getLoc (Fn C1) Release)
                                         object_not_fully_initialized_before_failure
                                  else C1)
                        in if isAllNo Avail then
                             (if isClassInitSelf (TheMemory C2) then
                                (case emitClassDealloc C2 Release of
                                   Inl e \<Rightarrow> Inl e
                                 | Inr (Dealloc, C3) \<Rightarrow>
                                     Inr (C3\<lparr>Releases := (Releases C3)[ReleaseID := Some Dealloc],
                                            Fn := eraseFromParent (Fn C3) Release\<rparr>))
                              else if \<not> isDestroyAddrInst X then Inl AssertionFailure
                              else
                                (case operands X of
                                   [] \<Rightarrow> Inl AssertionFailure
                                 | Addr # Ops \<Rightarrow>
                                     (let F1 = eraseFromParent (Fn C2) Release
                                      in Inr (C2\<lparr>Fn := (case getDef Addr of
                                                None \<Rightarrow> F1
                                              | Some AddrI \<Rightarrow>
                                                  recursivelyDeleteTriviallyDeadInstructions F1 AddrI),
                                              Releases := (Releases C2)[ReleaseID := None]\<rparr>))))
                           else
                             Inr (C2\<lparr>HasConditionalInitAssignOrDestroys :=
                                      (HasConditionalInitAssignOrDestroys C2 \<or> hasAny Avail Partial),
                                    ConditionalDestroys :=
                                      ConditionalDestroys C2 @ [(ReleaseID, Avail)]\<rparr>))))))"

fun processReleases :: "nat \<Rightarrow> LifetimeChecker \<Rightarrow> nat list \<Rightarrow> error + LifetimeChecker" where
  "processReleases fuel C [] = Inr C"
| "processReleases fuel C (i # is) =
     (case processNonTrivialRelease fuel C i of
        Inl e \<Rightarrow> Inl e
      | Inr C' \<Rightarrow> processReleases fuel C' is)"

section \<open>The liveness bitmap\<close>

text \<open>
  Modelled from the spec: \<^verbatim>\<open>getElementBitmask\<close> of a use is the number whose bits are the
  indices of the elements the use touches; it is all ones when it has all the bits of the
  width.
\<close>

definition getElementBitmask :: "DIMemoryUse \<Rightarrow> nat" where
  "getElementBitmask Use = sum_list (map (\<lambda>i. 2 ^ i) (window Use))"

definition isAllOnesValue :: "nat \<Rightarrow> nat \<Rightarrow> bool" where
  "isAllOnesValue width v = (v = 2 ^ width - 1)"

text \<open>The diamonds in front of an ambiguous store, one for each element it touches.\<close>

fun destroyLiveElements :: "SILInstruction \<Rightarrow> SILLocation \<Rightarrow> SILValue \<Rightarrow> LifetimeChecker \<Rightarrow> nat list
      \<Rightarrow> error + LifetimeChecker" where
  "destroyLiveElements I Loc Bitmask C [] = Inr C"
| "destroyLiveElements I Loc Bitmask C (Elt # Elts) =
     (case emitCondVal (Fn C) (Before I) Loc (getNumMemoryElements (TheMemory C)) Elt Bitmask of
        Inl e \<Rightarrow> Inl e
      | Inr (CondVal, F1) \<Rightarrow>
          (let ((TrueBB, FalseBB, ContBB), F2, ip) = InsertCFGDiamond F1 (Before I) CondVal Loc False;
               (EltPtr, F3) = emitElementAddress (TheMemory C) Elt Loc F2 (atBegin F2 TrueBB);
               (DA, F4) = emitDestroyAddr F3 (atBegin F2 TrueBB) Loc EltPtr
           in destroyLiveElements I Loc Bitmask
                (C\<lparr>Fn := F4, Releases := pushRelease DA (Releases C)\<rparr>) Elts))"

text \<open>
  One iteration of the loop of \<^verbatim>\<open>handleConditionalInitAssign\<close> over the uses. The second
  component of the result says that the same index is visited again (\<^verbatim>\<open>--i\<close>).
\<close>

definition condInitStep :: "SILValue \<Rightarrow> SILType \<Rightarrow> LifetimeChecker \<Rightarrow> nat
      \<Rightarrow> error + (LifetimeChecker \<times> bool)" where
  "condInitStep AllocAddr IVType C i =
     (let Use = Uses C ! i; M = TheMemory C; Loc = MemoryLoc M;
          NumMemoryElements = getNumMemoryElements M
      in case Inst Use of
           None \<Rightarrow> Inr (C, False)
         | Some I \<Rightarrow>
             if Kind Use = Initialization then
               (if onlyTouchesTrivialElements Use M then Inr (C, False)
                else
                  (let Bitmask = getElementBitmask Use;
                       (MaskLit, F1) = createIntegerLiteral (Fn C) (Before I) Loc IVType Bitmask
                   in if \<not> isAllOnesValue NumMemoryElements Bitmask then
                        (let (Tmp, F2) = createLoad F1 (Before I) Loc AllocAddr
                         in case getBinaryFunction ''or'' (getType F2 (SILValue Tmp 0)) of
                              Inl e \<Rightarrow> Inl e
                            | Inr OrFn \<Rightarrow>
                                (let (Or, F3) = createBuiltin F2 (Before I) Loc OrFn
                                                  (getType F2 (SILValue Tmp 0))
                                                  [SILValue Tmp 0, SILValue MaskLit 0];
                                     (S, F4) = createStore F3 (Before I) Loc (SILValue Or 0) AllocAddr
                                 in Inr (C\<lparr>Fn := F4\<rparr>, False)))
                      else
                        (let (S, F2) = createStore F1 (Before I) Loc (SILValue MaskLit 0) AllocAddr
                         in Inr (C\<lparr>Fn := F2\<rparr>, False))))
             else if Kind Use = InitOrAssign then
               (if onlyTouchesTrivialElements Use M then Inr (C, False)
                else
                  (let (L, F1) = createLoad (Fn C) (Before I) Loc AllocAddr
                   in case destroyLiveElements I Loc (SILValue L 0) (C\<lparr>Fn := F1\<rparr>) (window Use) of
                        Inl e \<Rightarrow> Inl e
                      | Inr C1 \<Rightarrow>
                          (case updateInstructionForInitState
                                  (C1\<lparr>Uses := (Uses C1)[i := (Uses C1 ! i)\<lparr>Kind := Initialization\<rparr>]\<rparr>) i of
                             Inl e \<Rightarrow> Inl e
                           | Inr C2 \<Rightarrow> Inr (C2, True))))
             else Inr (C, False))"

fun condInitLoop :: "nat \<Rightarrow> SILValue \<Rightarrow> SILType \<Rightarrow> LifetimeChecker \<Rightarrow> nat \<Rightarrow> error + LifetimeChecker" where
  "condInitLoop 0 AllocAddr IVType C i = Inl OutOfFuel"
| "condInitLoop (Suc n) AllocAddr IVType C i =
     (if i = length (Uses C) then Inr C
      else (case condInitStep AllocAddr IVType C i of
              Inl e \<Rightarrow> Inl e
            | Inr (C', again) \<Rightarrow> condInitLoop n AllocAddr IVType C' (if again then i else Suc i)))"

text \<open>A \<^verbatim>\<open>dealloc_stack\<close> in front of the return of every block that ends in a return.\<close>

fun deallocAtReturns :: "SILFunction \<Rightarrow> SILLocation \<Rightarrow> SILValue \<Rightarrow> SILBasicBlock list \<Rightarrow> SILFunction" where
  "deallocAtReturns F Loc V [] = F"
| "deallocAtReturns F Loc V (BB # BBs) =
     (if getInsts F BB \<noteq> [] \<and> isReturnInst (getInst F (last (getInsts F BB)))
      then deallocAtReturns (snd (createDeallocStack F (Before (last (getInsts F BB))) Loc V)) Loc V BBs
      else deallocAtReturns F Loc V BBs)"

definition getNextNode :: "SILFunction \<Rightarrow> SILInstruction \<Rightarrow> InsertionPoint" where
  "getNextNode F I =
     (case dropWhile (\<lambda>K. K \<noteq> I) (getInsts F (getParent F I)) of
        J # K # Ks \<Rightarrow> Before K
      | _ \<Rightarrow> AtEnd (getParent F I))"

definition handleConditionalInitAssign :: "nat \<Rightarrow> LifetimeChecker \<Rightarrow> error + (SILValue \<times> LifetimeChecker)" where
  "handleConditionalInitAssign fuel C =
     (case getBlocks (Fn C) of
        [] \<Rightarrow> Inl AssertionFailure
      | Entry # Rest \<Rightarrow>
          (let M = TheMemory C; Loc = MemoryLoc M;
               IVType = SILType (BuiltinIntegerType (getNumMemoryElements M)) False;
               (Alloc, F1) = createAllocStack (Fn C) (atBegin (Fn C) Entry) Loc IVType;
               F2 = deallocAtReturns F1 Loc (SILValue Alloc 0) (getBlocks F1);
               AllocAddr = SILValue Alloc 1;
               (Zero, F3) = createIntegerLiteral F2 (getNextNode F2 (MemoryInst M)) Loc IVType 0;
               (S, F4) = createStore F3 (getNextNode F2 (MemoryInst M)) Loc (SILValue Zero 0) AllocAddr
           in case condInitLoop fuel AllocAddr IVType (C\<lparr>Fn := F4\<rparr>) 0 of
                Inl e \<Rightarrow> Inl e
              | Inr C' \<Rightarrow> Inr (AllocAddr, C')))"

section \<open>doIt\<close>

text \<open>
  After the loop over the uses, \<^verbatim>\<open>doIt\<close> returns if the list of emitted error locations
  is not empty. Otherwise it processes the releases (if the type of the memory object is
  not trivial), inserts the bitmap (if a conditional store or destroy was found) and
  rewrites the conditional destroys (if there are any).
\<close>

definition doIt :: "nat \<Rightarrow> LifetimeChecker \<Rightarrow> error + LifetimeChecker" where
  "doIt fuel C =
     (case classifyUses fuel fuel C 0 of
        Inl e \<Rightarrow> Inl e
      | Inr C1 \<Rightarrow>
          if EmittedErrorLocs C1 \<noteq> [] then Inr C1
          else
            (case (if \<not> isTrivial (MemorySILType (TheMemory C1))
                   then processReleases fuel C1 [0..<length (Releases C1)]
                   else Inr C1) of
               Inl e \<Rightarrow> Inl e
             | Inr C2 \<Rightarrow>
                 (case (if HasConditionalInitAssignOrDestroys C2
                        then (case handleConditionalInitAssign fuel C2 of
                                Inl e \<Rightarrow> Inl e
                              | Inr (ControlVariable, C3) \<Rightarrow> Inr (Some ControlVariable, C3))
                        else Inr (None, C2)) of
                    Inl e \<Rightarrow> Inl e
                  | Inr (ControlVariable, C3) \<Rightarrow>
                      if ConditionalDestroys C3 \<noteq> []
                      then handleConditionalDestroys ControlVariable C3
                      else Inr C3)))"

section \<open>Predicates for the outcome of the classification\<close>




section \<open>A function with a loop, used to run the definitions\<close>

text \<open>
  Four blocks: block 0 defines the memory object (instruction 10) and stores to element 0
  (instruction 11); block 1 is the head of a loop and loads both elements (12); block 2 is
  the body of the loop and stores to element 1 (13); block 3 is the exit and loads both
  elements (14). The edges are 0 to 1, 1 to 2, 2 to 1 and 1 to 3.
\<close>

definition F0 :: SILFunction where
  "F0 = \<lparr>getBlocks = [0, 1, 2, 3],
         getPreds = (\<lambda>b. if b = 1 then [0, 2] else if b = 2 then [1] else if b = 3 then [1] else []),
         getSuccs = (\<lambda>b. if b = 0 then [1] else if b = 1 then [2, 3] else if b = 2 then [1] else []),
         getInsts = (\<lambda>b. if b = 0 then [10, 11] else if b = 1 then [12]
                          else if b = 2 then [13] else if b = 3 then [14] else []),
         getParent = (\<lambda>i. if i = 10 \<or> i = 11 then 0 else if i = 12 then 1
                           else if i = 13 then 2 else 3),
         getInst = (\<lambda>i. if i = 10 then MarkUninitializedInst (SILArgument 0)
                         else if i = 11 then StoreInst (SILArgument 1) (SILValue 10 0)
                         else if i = 13 then AssignInst (SILArgument 2) (SILValue 10 0)
                         else LoadInst (SILValue 10 0)),
         getLoc = (\<lambda>i. Location (Some i)),
         getType = (\<lambda>v. SILType (NominalType 0 False) (v = SILValue 10 0)),
         getLocation = Location (Some 0),
         NextInst = 15,
         NextBlock = 4\<rparr>"

definition M0 :: DIMemoryObjectInfo where
  "M0 = \<lparr>MemoryInst = 10, MemoryNumElements = 2, role = LocalVar,
         elementIsLet = (\<lambda>i. False), trivialType = (\<lambda>i. False),
         elementDecl = (\<lambda>i. None), MemorySILType = SILType (NominalType 0 False) True,
         MemoryLoc = Location (Some 10)\<rparr>"

definition Us0 :: "DIMemoryUse list" where
  "Us0 = [\<lparr>Inst = Some 11, Kind = Initialization, FirstElement = 0, NumElements = 1\<rparr>,
          \<lparr>Inst = Some 12, Kind = Load, FirstElement = 0, NumElements = 2\<rparr>,
          \<lparr>Inst = Some 13, Kind = InitOrAssign, FirstElement = 1, NumElements = 1\<rparr>,
          \<lparr>Inst = Some 14, Kind = Load, FirstElement = 0, NumElements = 2\<rparr>]"

text \<open>The block map and the checker that the constructor builds from them.\<close>

definition P0 :: PerBlockInfo where
  "P0 = (\<lambda>BB. if BB = 0 then \<lparr>HasNonLoadUse = True, Availability = [False, True, False, False],
                                LOState = IsKnown\<rparr>
              else if BB = 2 then \<lparr>HasNonLoadUse = True, Availability = [True, True, False, True],
                                     LOState = IsUnknown\<rparr>
              else LiveOutBlockState 2)"

definition C0 :: LifetimeChecker where
  "C0 = \<lparr>Fn = F0, TheMemory = M0, Uses = Us0, Releases = [], ConditionalDestroys = [],
          PerBlockInfo = P0,
          NonLoadUses = [11 \<mapsto> 0, 13 \<mapsto> 2, 10 \<mapsto> 4294967295],
          HasConditionalInitAssignOrDestroys = False, EmittedErrorLocs = [],
          BlocksReachableFromEntry = [], Diags = []\<rparr>"

text \<open>The same function with one element: only the store of block 2 is a use.\<close>

definition M1 :: DIMemoryObjectInfo where
  "M1 = \<lparr>MemoryInst = 10, MemoryNumElements = 1, role = LocalVar,
         elementIsLet = (\<lambda>i. False), trivialType = (\<lambda>i. False),
         elementDecl = (\<lambda>i. None), MemorySILType = SILType (NominalType 0 False) True,
         MemoryLoc = Location (Some 10)\<rparr>"

definition P1 :: PerBlockInfo where
  "P1 = (\<lambda>BB. if BB = 0 then \<lparr>HasNonLoadUse = True, Availability = [False, False],
                                LOState = IsKnown\<rparr>
              else if BB = 2 then \<lparr>HasNonLoadUse = True, Availability = [False, True],
                                     LOState = IsKnown\<rparr>
              else LiveOutBlockState 1)"

section \<open>A function with a cycle that cannot be reached\<close>

text \<open>
  Block 0 defines the memory object (instruction 10) and returns; blocks 1 and 2 jump to
  each other and nothing jumps to them. Block 1 loads the whole object (instruction 12).
  \<open>Ccyc M\<close> is the checker that the constructor builds for the memory object \<open>M\<close>.
\<close>

definition Fcyc :: SILFunction where
  "Fcyc = \<lparr>getBlocks = [0, 1, 2],
         getPreds = (\<lambda>b. if b = 1 then [2] else if b = 2 then [1] else []),
         getSuccs = (\<lambda>b. if b = 1 then [2] else if b = 2 then [1] else []),
         getInsts = (\<lambda>b. if b = 0 then [10, 11] else if b = 1 then [12]
                          else if b = 2 then [13] else []),
         getParent = (\<lambda>i. if i = 10 \<or> i = 11 then 0 else if i = 12 then 1 else 2),
         getInst = (\<lambda>i. if i = 10 then MarkUninitializedInst (SILArgument 0)
                         else if i = 11 then ReturnInst (SILArgument 1)
                         else if i = 12 then LoadInst (SILValue 10 0)
                         else BranchInst 1),
         getLoc = (\<lambda>i. Location (Some i)),
         getType = (\<lambda>v. SILType (NominalType 0 False) (v = SILValue 10 0)),
         getLocation = Location (Some 0),
         NextInst = 14,
         NextBlock = 3\<rparr>"

definition UsCyc :: "nat \<Rightarrow> DIMemoryUse list" where
  "UsCyc N = [\<lparr>Inst = Some 12, Kind = Load, FirstElement = 0, NumElements = N\<rparr>]"

definition Ccyc :: "DIMemoryObjectInfo \<Rightarrow> LifetimeChecker" where
  "Ccyc M = \<lparr>Fn = Fcyc, TheMemory = M, Uses = UsCyc (MemoryNumElements M), Releases = [],
          ConditionalDestroys = [],
          PerBlockInfo = (\<lambda>BB. if BB = 0
             then \<lparr>HasNonLoadUse = True,
                   Availability = replicate (MemoryNumElements M * 2) False, LOState = IsKnown\<rparr>
             else LiveOutBlockState (MemoryNumElements M)),
          NonLoadUses = [10 \<mapsto> 4294967295],
          HasConditionalInitAssignOrDestroys = False, EmittedErrorLocs = [],
          BlocksReachableFromEntry = [], Diags = []\<rparr>"

section \<open>A function that assigns twice to a let property\<close>

text \<open>
  Block 0 defines the memory object (instruction 10) and branches to blocks 1 and 2.
  Block 1 initializes the one element with a store (11), assigns to it again (12) and
  jumps to block 3; block 2 destroys the object (13) and jumps to block 3; block 3
  returns. The element is a \<^verbatim>\<open>let\<close> property. \<open>PLet\<close> and \<open>CLet\<close> are the block map and the
  checker that the constructor builds for the two stores and the release.
\<close>

definition FLet :: SILFunction where
  "FLet = \<lparr>getBlocks = [0, 1, 2, 3],
         getPreds = (\<lambda>b. if b = 1 then [0] else if b = 2 then [0] else if b = 3 then [1, 2] else []),
         getSuccs = (\<lambda>b. if b = 0 then [1, 2] else if b = 1 then [3] else if b = 2 then [3] else []),
         getInsts = (\<lambda>b. if b = 0 then [10, 15] else if b = 1 then [11, 12, 16]
                          else if b = 2 then [13, 17] else if b = 3 then [14] else []),
         getParent = (\<lambda>i. if i = 10 \<or> i = 15 then 0 else if i = 11 \<or> i = 12 \<or> i = 16 then 1
                           else if i = 13 \<or> i = 17 then 2 else 3),
         getInst = (\<lambda>i. if i = 10 then MarkUninitializedInst (SILArgument 0)
                         else if i = 11 then StoreInst (SILArgument 1) (SILValue 10 0)
                         else if i = 12 then AssignInst (SILArgument 2) (SILValue 10 0)
                         else if i = 13 then DestroyAddrInst (SILValue 10 0)
                         else if i = 14 then ReturnInst (SILArgument 3)
                         else if i = 15 then CondBranchInst (SILArgument 4) 1 2
                         else BranchInst 3),
         getLoc = (\<lambda>i. Location (Some i)),
         getType = (\<lambda>v. SILType (NominalType 0 False) (v = SILValue 10 0)),
         getLocation = Location (Some 0),
         NextInst = 18,
         NextBlock = 4\<rparr>"

definition MLet :: DIMemoryObjectInfo where
  "MLet = \<lparr>MemoryInst = 10, MemoryNumElements = 1, role = LocalVar,
         elementIsLet = (\<lambda>i. True), trivialType = (\<lambda>i. False),
         elementDecl = (\<lambda>i. Some \<lparr>declLoc = Some 10, isImplicit = False, hasInit = False\<rparr>),
         MemorySILType = SILType (NominalType 0 False) True,
         MemoryLoc = Location (Some 10)\<rparr>"

definition UsLet :: "DIMemoryUse list" where
  "UsLet = [\<lparr>Inst = Some 11, Kind = Initialization, FirstElement = 0, NumElements = 1\<rparr>,
          \<lparr>Inst = Some 12, Kind = InitOrAssign, FirstElement = 0, NumElements = 1\<rparr>]"

definition PLet :: PerBlockInfo where
  "PLet = (\<lambda>BB. if BB = 0 then \<lparr>HasNonLoadUse = True, Availability = [False, False], LOState = IsKnown\<rparr>
              else if BB = 1 then \<lparr>HasNonLoadUse = True, Availability = [False, True], LOState = IsKnown\<rparr>
              else LiveOutBlockState 1)"

definition CLet :: LifetimeChecker where
  "CLet = \<lparr>Fn = FLet, TheMemory = MLet, Uses = UsLet, Releases = [Some 13], ConditionalDestroys = [],
          PerBlockInfo = PLet,
          NonLoadUses = [11 \<mapsto> 0, 12 \<mapsto> 1, 10 \<mapsto> 4294967295],
          HasConditionalInitAssignOrDestroys = False, EmittedErrorLocs = [],
          BlocksReachableFromEntry = [], Diags = []\<rparr>"

section \<open>A function that loads twice before any store\<close>




section \<open>Facts about the encoding\<close>

lemma length_set_DIKind [simp]: "length (set_DIKind Data Elt K) = length Data"
  by (cases K) simp_all

lemma length_set_Optional [simp]: "length (set_Optional Data Elt K) = length Data"
  by (cases K) simp_all

lemma size_set_DIKind [simp]: "size_av (set_DIKind Data Elt K) = size_av Data"
  by (simp add: size_av_def)

lemma size_set_Optional [simp]: "size_av (set_Optional Data Elt K) = size_av Data"
  by (simp add: size_av_def)

lemma size_AvailabilitySet [simp]: "size_av (AvailabilitySet n) = n"
  by (simp add: size_av_def AvailabilitySet_def)

lemma in_range_bits: "i < size_av Data \<Longrightarrow> i * 2 + 1 < length Data"
  unfolding size_av_def by linarith

lemma get_set_DIKind_same:
  "i < size_av Data \<Longrightarrow> getConditional (set_DIKind Data i K) i = Some K"
  using in_range_bits [of i Data] by (cases K) (simp_all add: getConditional_def)

lemma get_set_DIKind_other:
  "j \<noteq> i \<Longrightarrow> getConditional (set_DIKind Data i K) j = getConditional Data j"
proof -
  assume "j \<noteq> i"
  then have "j * 2 \<noteq> i * 2" "j * 2 \<noteq> i * 2 + 1" "j * 2 + 1 \<noteq> i * 2" "j * 2 + 1 \<noteq> i * 2 + 1"
    by arith+
  then show ?thesis
    by (cases K) (simp_all add: getConditional_def)
qed

lemma get_set_Optional_same:
  "i < size_av Data \<Longrightarrow> getConditional (set_Optional Data i K) i = K"
proof (cases K)
  case None
  assume "i < size_av Data"
  then show ?thesis
    using in_range_bits [of i Data] None by (simp add: getConditional_def)
next
  case (Some k)
  assume "i < size_av Data"
  then show ?thesis
    using Some by (simp add: get_set_DIKind_same)
qed

lemma get_set_Optional_other:
  "j \<noteq> i \<Longrightarrow> getConditional (set_Optional Data i K) j = getConditional Data j"
proof (cases K)
  case None
  assume "j \<noteq> i"
  then have "j * 2 \<noteq> i * 2" "j * 2 \<noteq> i * 2 + 1" "j * 2 + 1 \<noteq> i * 2" "j * 2 + 1 \<noteq> i * 2 + 1"
    by arith+
  then show ?thesis
    using None by (simp add: getConditional_def)
next
  case (Some k)
  assume "j \<noteq> i"
  then show ?thesis
    using Some by (simp add: get_set_DIKind_other)
qed

declare set_DIKind.simps [simp del] set_Optional.simps(1) [simp del]

lemma containsUnknownElements_iff:
  "containsUnknownElements Data \<longleftrightarrow> (\<exists>j. j < size_av Data \<and> getConditional Data j = None)"
  by (auto simp: containsUnknownElements_def list_ex_iff)

lemma get_AvailabilitySet: "i < n \<Longrightarrow> getConditional (AvailabilitySet n) i = None"
  by (simp add: getConditional_def AvailabilitySet_def)

section \<open>Facts about the dataflow\<close>

lemma fold_size_av:
  "(\<And>i D. size_av (f i D) = size_av D) \<Longrightarrow> size_av (fold f xs D) = size_av D"
  by (induction xs arbitrary: D) simp_all

lemma size_mergeIn [simp]: "size_av (mergeIn D R) = size_av D"
  unfolding mergeIn_def by (rule fold_size_av) simp

lemma size_keepLocalYes [simp]: "size_av (keepLocalYes N L R) = size_av R"
  unfolding keepLocalYes_def by (rule fold_size_av) (simp add: size_av_def)

lemma size_changeUnsetElementsTo [simp]: "size_av (changeUnsetElementsTo D K) = size_av D"
  unfolding changeUnsetElementsTo_def by (rule fold_size_av) simp

lemma lo_rel_refl [simp]: "lo_rel P P"
  by (simp add: lo_rel_def)

lemma lo_rel_trans: "lo_rel P P' \<Longrightarrow> lo_rel P' P'' \<Longrightarrow> lo_rel P P''"
  unfolding lo_rel_def by metis

lemma lo_rel_pending: "lo_rel P P' \<Longrightarrow> pending F P' = pending F P"
  by (auto simp: lo_rel_def pending_def)

lemma pending_mark:
  assumes "BB \<in> set (getBlocks F)" "LOState (P BB) = IsUnknown"
  shows "card (pending F (P(BB := (P BB)\<lparr>LOState := IsComputingLiveOut\<rparr>))) < card (pending F P)"
proof -
  have fin: "finite (pending F P)" by (simp add: pending_def)
  have "pending F (P(BB := (P BB)\<lparr>LOState := IsComputingLiveOut\<rparr>)) = pending F P - {BB}"
    by (auto simp: pending_def)
  moreover have "BB \<in> pending F P" using assms by (simp add: pending_def)
  ultimately show ?thesis using card_Diff1_less [OF fin, of BB]
    by simp
qed

lemma getPredsLiveOutN_total:
  assumes IH: "\<And>P BB. BB \<in> set (getBlocks F) \<Longrightarrow> card (pending F P) < n
                 \<Longrightarrow> lo_post P (getLiveOutN n F N P BB)"
  shows "set Ps \<subseteq> set (getBlocks F) \<Longrightarrow> card (pending F P) < n
         \<Longrightarrow> lo_post P (getPredsLiveOutN n F N P Ps R0)"
proof (induction Ps arbitrary: P R0)
  case Nil
  then show ?case by (simp add: lo_post_def)
next
  case (Cons Pred Ps)
  from IH [of Pred P] Cons.prems
  obtain R P' where r: "getLiveOutN n F N P Pred = Inr (R, P')" and p: "lo_rel P P'"
    by (auto simp: lo_post_def split: sum.splits)
  have "card (pending F P') < n"
    using p Cons.prems(2) by (simp add: lo_rel_pending)
  with Cons.IH [of P' "mergeIn R0 R"] Cons.prems
  have "lo_post P' (getPredsLiveOutN n F N P' Ps (mergeIn R0 R))"
    by simp
  then show ?case
    using r p by (auto simp: lo_post_def split: sum.splits prod.splits intro: lo_rel_trans)
qed

lemma getLiveOutN_total:
  assumes cl: "closedCFG F"
  shows "BB \<in> set (getBlocks F) \<Longrightarrow> card (pending F P) < n
         \<Longrightarrow> lo_post P (getLiveOutN n F N P BB)"
proof (induction n arbitrary: P BB)
  case 0
  then show ?case by simp
next
  case (Suc n)
  show ?case
  proof (cases "LOState (P BB)")
    case IsKnown
    then show ?thesis by (simp add: lo_post_def)
  next
    case IsComputingLiveOut
    then show ?thesis by (simp add: lo_post_def)
  next
    case IsUnknown
    define P1 where "P1 = P(BB := (P BB)\<lparr>LOState := IsComputingLiveOut\<rparr>)"
    have c1: "card (pending F P1) < n"
      using pending_mark [of BB F P] Suc.prems(1) IsUnknown Suc.prems(2) by (simp add: P1_def)
    have ps: "set (getPreds F BB) \<subseteq> set (getBlocks F)"
      using cl Suc.prems(1) by (simp add: closedCFG_def)
    have "lo_post P1 (getPredsLiveOutN n F N P1 (getPreds F BB) (AvailabilitySet N))"
      by (rule getPredsLiveOutN_total [OF Suc.IH ps c1])
    then obtain R P2 where r: "getPredsLiveOutN n F N P1 (getPreds F BB) (AvailabilitySet N) = Inr (R, P2)"
      and p: "lo_rel P1 P2"
      by (auto simp: lo_post_def split: sum.splits)
    have ip: "LOState (P2 BB) = IsComputingLiveOut"
      using p by (simp add: lo_rel_def P1_def)
    have hn: "HasNonLoadUse (P2 BB) = HasNonLoadUse (P BB)"
      using p by (simp add: lo_rel_def P1_def)
    have other: "\<And>b. b \<noteq> BB \<Longrightarrow> (LOState (P b) = IsKnown \<longrightarrow> P2 b = P b)
        \<and> (LOState (P2 b) = IsComputingLiveOut \<longleftrightarrow> LOState (P b) = IsComputingLiveOut)
        \<and> HasNonLoadUse (P2 b) = HasNonLoadUse (P b)"
      using p by (simp add: lo_rel_def P1_def)
    show ?thesis
      using IsUnknown r ip hn other
      by (auto simp: lo_post_def P1_def [symmetric] setBlockAvailability_def lo_rel_def Let_def)
  qed
qed

subsection \<open>Sizes\<close>

lemma sized_upd: "sized N P \<Longrightarrow> size_av (Availability S) = N \<Longrightarrow> sized N (P(BB := S))"
  by (simp add: sized_def)

lemma getPredsLiveOutN_sized:
  assumes IH: "\<And>P BB R P'. getLiveOutN n F N P BB = Inr (R, P') \<Longrightarrow> sized N P
                 \<Longrightarrow> size_av R = N \<and> sized N P'"
  shows "getPredsLiveOutN n F N P Ps R0 = Inr (R, P') \<Longrightarrow> sized N P \<Longrightarrow> size_av R0 = N
         \<Longrightarrow> size_av R = N \<and> sized N P'"
proof (induction Ps arbitrary: P R0)
  case Nil
  then show ?case by simp
next
  case (Cons Pred Ps)
  from Cons.prems(1) obtain R1 P1 where
    a: "getLiveOutN n F N P Pred = Inr (R1, P1)"
    and b: "getPredsLiveOutN n F N P1 Ps (mergeIn R0 R1) = Inr (R, P')"
    by (auto split: sum.splits)
  from IH [OF a Cons.prems(2)] have "sized N P1" by simp
  from Cons.IH [OF b this] Cons.prems(3) show ?case by simp
qed

lemma getLiveOutN_sized:
  "getLiveOutN n F N P BB = Inr (R, P') \<Longrightarrow> sized N P \<Longrightarrow> size_av R = N \<and> sized N P'"
proof (induction n arbitrary: P BB R P')
  case 0
  then show ?case by simp
next
  case (Suc n)
  show ?case
  proof (cases "LOState (P BB)")
    case IsKnown
    then show ?thesis using Suc.prems by (auto simp: sized_def)
  next
    case IsComputingLiveOut
    then show ?thesis using Suc.prems by auto
  next
    case IsUnknown
    define P1 where "P1 = P(BB := (P BB)\<lparr>LOState := IsComputingLiveOut\<rparr>)"
    have s1: "sized N P1" using Suc.prems(2) by (simp add: sized_def P1_def)
    from Suc.prems(1) IsUnknown obtain R2 P2 where
      r: "getPredsLiveOutN n F N P1 (getPreds F BB) (AvailabilitySet N) = Inr (R2, P2)"
      by (auto simp: P1_def [symmetric] Let_def split: sum.splits)
    have k2: "size_av R2 = N" "sized N P2"
      using getPredsLiveOutN_sized [OF Suc.IH r s1] by simp_all
    show ?thesis
      using Suc.prems(1) IsUnknown r k2
      by (auto simp: P1_def [symmetric] Let_def setBlockAvailability_def sized_def
               split: sum.splits if_splits)
  qed
qed

subsection \<open>known_inv is preserved whenever a query returns\<close>

lemma known_inv_mark:
  "known_inv P \<Longrightarrow> LOState S \<noteq> IsKnown \<Longrightarrow> known_inv (P(BB := S))"
  by (simp add: known_inv_def)

lemma known_inv_set:
  "known_inv P \<Longrightarrow> \<not> containsUnknownElements (Availability S) \<Longrightarrow> known_inv (P(BB := S))"
  by (simp add: known_inv_def)

lemma getPredsLiveOutN_known_inv:
  assumes IH: "\<And>P BB R P'. getLiveOutN n F N P BB = Inr (R, P') \<Longrightarrow> known_inv P \<Longrightarrow> known_inv P'"
  shows "getPredsLiveOutN n F N P Ps R0 = Inr (R, P') \<Longrightarrow> known_inv P \<Longrightarrow> known_inv P'"
proof (induction Ps arbitrary: P R0)
  case Nil
  then show ?case by simp
next
  case (Cons Pred Ps)
  then show ?case
    by (auto split: sum.splits dest: IH)
qed

lemma getLiveOutN_known_inv:
  "getLiveOutN n F N P BB = Inr (R, P') \<Longrightarrow> known_inv P \<Longrightarrow> known_inv P'"
proof (induction n arbitrary: P BB R P')
  case 0
  then show ?case by simp
next
  case (Suc n)
  show ?case
  proof (cases "LOState (P BB)")
    case IsKnown
    then show ?thesis using Suc.prems by simp
  next
    case IsComputingLiveOut
    then show ?thesis using Suc.prems by simp
  next
    case IsUnknown
    define P1 where "P1 = P(BB := (P BB)\<lparr>LOState := IsComputingLiveOut\<rparr>)"
    have k1: "known_inv P1"
      unfolding P1_def using Suc.prems(2) by (intro known_inv_mark) simp_all
    from Suc.prems(1) IsUnknown obtain R2 P2 where
      r: "getPredsLiveOutN n F N P1 (getPreds F BB) (AvailabilitySet N) = Inr (R2, P2)"
      by (auto simp: P1_def [symmetric] Let_def split: sum.splits)
    have k2: "known_inv P2"
      using getPredsLiveOutN_known_inv [OF Suc.IH r k1] by simp
    define R' where "R' = keepLocalYes N (Availability (P2 BB)) R2"
    show ?thesis
    proof (cases "containsUnknownElements R'")
      case True
      then have "P' = P2(BB := (P2 BB)\<lparr>LOState := IsUnknown\<rparr>)"
        using Suc.prems(1) IsUnknown r
        by (simp add: P1_def [symmetric] R'_def [symmetric] Let_def)
      moreover have "known_inv (P2(BB := (P2 BB)\<lparr>LOState := IsUnknown\<rparr>))"
        by (rule known_inv_mark [OF k2]) simp
      ultimately show ?thesis by (simp only:)
    next
      case False
      then have "P' = P2(BB := (P2 BB)\<lparr>Availability := R', LOState := IsKnown\<rparr>)"
        using Suc.prems(1) IsUnknown r
        by (auto simp: P1_def [symmetric] R'_def [symmetric] Let_def setBlockAvailability_def
                 split: if_splits)
      moreover have "known_inv (P2(BB := (P2 BB)\<lparr>Availability := R', LOState := IsKnown\<rparr>))"
        by (rule known_inv_set [OF k2]) (simp add: False)
      ultimately show ?thesis by (simp only:)
    qed
  qed
qed

subsection \<open>The one-element path\<close>

lemma containsUnknown_size1:
  "size_av A = 1 \<Longrightarrow> containsUnknownElements A \<longleftrightarrow> getConditional A 0 = None"
  by (auto simp: containsUnknownElements_iff)

lemma setBlockAvailability1_Inr:
  "setBlockAvailability1 S K = Inr S' \<longleftrightarrow>
     LOState S \<noteq> IsKnown \<and> size_av (Availability S) = 1
     \<and> S' = S\<lparr>Availability := set_DIKind (Availability S) 0 K, LOState := IsKnown\<rparr>"
  by (auto simp: setBlockAvailability1_def)

lemma set1_no_unknown:
  "size_av A = 1 \<Longrightarrow> \<not> containsUnknownElements (set_DIKind A 0 K)"
  by (simp add: containsUnknown_size1 get_set_DIKind_same)

lemma getPredsLiveOut1_known_inv:
  assumes IH: "\<And>P BB R P'. getLiveOut1 n F P BB = Inr (R, P') \<Longrightarrow> known_inv P \<Longrightarrow> known_inv P'"
  shows "getPredsLiveOut1 n F P Ps R0 = Inr (R, P') \<Longrightarrow> known_inv P \<Longrightarrow> known_inv P'"
proof (induction Ps arbitrary: P R0)
  case Nil
  then show ?case by simp
next
  case (Cons Pred Ps)
  then show ?case
    by (auto split: sum.splits dest: IH)
qed

lemma getLiveOut1_known_inv:
  "getLiveOut1 n F P BB = Inr (R, P') \<Longrightarrow> known_inv P \<Longrightarrow> known_inv P'"
proof (induction n arbitrary: P BB R P')
  case 0
  then show ?case by simp
next
  case (Suc n)
  show ?case
  proof (cases "LOState (P BB)")
    case IsKnown
    then show ?thesis using Suc.prems by (auto split: sum.splits)
  next
    case IsComputingLiveOut
    then show ?thesis using Suc.prems by simp
  next
    case IsUnknown
    show ?thesis
    proof (cases "getConditional (Availability (P BB)) 0 = Some Yes")
      case True
      then obtain S where s: "setBlockAvailability1 (P BB) Yes = Inr S" and p: "P' = P(BB := S)"
        using Suc.prems(1) IsUnknown by (auto split: sum.splits)
      have "\<not> containsUnknownElements (Availability S)"
        using s by (auto simp: setBlockAvailability1_Inr set1_no_unknown)
      from known_inv_set [OF Suc.prems(2) this] p show ?thesis by (simp only:)
    next
      case False
      define P1 where "P1 = P(BB := (P BB)\<lparr>LOState := IsComputingLiveOut\<rparr>)"
      have k1: "known_inv P1"
        unfolding P1_def using Suc.prems(2) by (intro known_inv_mark) simp_all
      from Suc.prems(1) IsUnknown False obtain R2 P2 where
        r: "getPredsLiveOut1 n F P1 (getPreds F BB) (getConditional (Availability (P1 BB)) 0) = Inr (R2, P2)"
        by (auto simp: P1_def [symmetric] Let_def split: sum.splits)
      have k2: "known_inv P2"
        using getPredsLiveOut1_known_inv [OF Suc.IH r k1] by simp
      show ?thesis
      proof (cases R2)
        case None
        then have "P' = P2(BB := (P2 BB)\<lparr>LOState := IsUnknown\<rparr>)"
          using Suc.prems(1) IsUnknown False r
          by (simp add: P1_def [symmetric] Let_def)
        moreover have "known_inv (P2(BB := (P2 BB)\<lparr>LOState := IsUnknown\<rparr>))"
          by (rule known_inv_mark [OF k2]) simp
        ultimately show ?thesis by (simp only:)
      next
        case (Some K)
        then obtain S where s: "setBlockAvailability1 (P2 BB) K = Inr S" and p: "P' = P2(BB := S)"
          using Suc.prems(1) IsUnknown False r
          by (auto simp: P1_def [symmetric] Let_def split: sum.splits)
        have "\<not> containsUnknownElements (Availability S)"
          using s by (auto simp: setBlockAvailability1_Inr set1_no_unknown)
        from known_inv_set [OF k2 this] p show ?thesis by (simp only:)
      qed
    qed
  qed
qed

lemma getPredsLiveOut1_total:
  assumes IH: "\<And>P BB. sized 1 P \<Longrightarrow> known_inv P \<Longrightarrow> BB \<in> set (getBlocks F)
                 \<Longrightarrow> card (pending F P) < n \<Longrightarrow> lo_post1 P (getLiveOut1 n F P BB)"
  shows "sized 1 P \<Longrightarrow> known_inv P \<Longrightarrow> set Ps \<subseteq> set (getBlocks F) \<Longrightarrow> card (pending F P) < n
         \<Longrightarrow> lo_post1 P (getPredsLiveOut1 n F P Ps R0)"
proof (induction Ps arbitrary: P R0)
  case Nil
  then show ?case by (simp add: lo_post1_def)
next
  case (Cons Pred Ps)
  from IH [of P Pred] Cons.prems
  obtain R P' where r: "getLiveOut1 n F P Pred = Inr (R, P')"
    and p: "sized 1 P'" "known_inv P'" "lo_rel P P'"
    by (auto simp: lo_post1_def split: sum.splits)
  have "card (pending F P') < n"
    using p(3) Cons.prems(4) by (simp add: lo_rel_pending)
  with Cons.IH [of P' "mergeKinds R0 R"] p Cons.prems
  have "lo_post1 P' (getPredsLiveOut1 n F P' Ps (mergeKinds R0 R))"
    by simp
  then show ?case
    using r p(3) by (auto simp: lo_post1_def split: sum.splits prod.splits intro: lo_rel_trans)
qed

lemma getLiveOut1_total:
  assumes cl: "closedCFG F"
  shows "sized 1 P \<Longrightarrow> known_inv P \<Longrightarrow> BB \<in> set (getBlocks F) \<Longrightarrow> card (pending F P) < n
         \<Longrightarrow> lo_post1 P (getLiveOut1 n F P BB)"
proof (induction n arbitrary: P BB)
  case 0
  then show ?case by simp
next
  case (Suc n)
  have sz: "size_av (Availability (P BB)) = 1" using Suc.prems(1) by (simp add: sized_def)
  show ?case
  proof (cases "LOState (P BB)")
    case IsKnown
    then have "getConditional (Availability (P BB)) 0 \<noteq> None"
      using Suc.prems(2) sz by (auto simp: known_inv_def containsUnknown_size1)
    then show ?thesis using IsKnown Suc.prems
      by (auto simp: lo_post1_def get_def split: option.splits)
  next
    case IsComputingLiveOut
    then show ?thesis using Suc.prems by (simp add: lo_post1_def)
  next
    case IsUnknown
    show ?thesis
    proof (cases "getConditional (Availability (P BB)) 0 = Some Yes")
      case True
      define S where "S = (P BB)\<lparr>Availability := set_DIKind (Availability (P BB)) 0 Yes, LOState := IsKnown\<rparr>"
      have s: "setBlockAvailability1 (P BB) Yes = Inr S"
        using IsUnknown sz by (simp add: setBlockAvailability1_Inr S_def)
      have r: "getLiveOut1 (Suc n) F P BB = Inr (Some Yes, P(BB := S))"
        using IsUnknown True s by simp
      have "sized 1 (P(BB := S))" using Suc.prems(1) by (simp add: sized_def S_def)
      moreover have "known_inv (P(BB := S))"
        by (rule known_inv_set [OF Suc.prems(2)]) (simp add: S_def set1_no_unknown sz)
      moreover have "lo_rel P (P(BB := S))"
        using IsUnknown by (simp add: lo_rel_def S_def)
      ultimately show ?thesis using r by (simp add: lo_post1_def)
    next
      case False
      define P1 where "P1 = P(BB := (P BB)\<lparr>LOState := IsComputingLiveOut\<rparr>)"
      have s1: "sized 1 P1" using Suc.prems(1) by (simp add: sized_def P1_def)
      have k1: "known_inv P1"
        unfolding P1_def using Suc.prems(2) by (intro known_inv_mark) simp_all
      have c1: "card (pending F P1) < n"
        using pending_mark [of BB F P] Suc.prems(3) IsUnknown Suc.prems(4) by (simp add: P1_def)
      have ps: "set (getPreds F BB) \<subseteq> set (getBlocks F)"
        using cl Suc.prems(3) by (simp add: closedCFG_def)
      have "lo_post1 P1 (getPredsLiveOut1 n F P1 (getPreds F BB) (getConditional (Availability (P1 BB)) 0))"
        by (rule getPredsLiveOut1_total [OF Suc.IH s1 k1 ps c1])
      then obtain R P2 where
        r: "getPredsLiveOut1 n F P1 (getPreds F BB) (getConditional (Availability (P1 BB)) 0) = Inr (R, P2)"
        and p: "sized 1 P2" "known_inv P2" "lo_rel P1 P2"
        by (auto simp: lo_post1_def split: sum.splits)
      have ip: "LOState (P2 BB) = IsComputingLiveOut"
        using p(3) by (simp add: lo_rel_def P1_def)
      have sz2: "size_av (Availability (P2 BB)) = 1" using p(1) by (simp add: sized_def)
      have hn: "HasNonLoadUse (P2 BB) = HasNonLoadUse (P BB)"
        using p(3) by (simp add: lo_rel_def P1_def)
      have other: "\<And>b. b \<noteq> BB \<Longrightarrow> (LOState (P b) = IsKnown \<longrightarrow> P2 b = P b)
          \<and> (LOState (P2 b) = IsComputingLiveOut \<longleftrightarrow> LOState (P b) = IsComputingLiveOut)
          \<and> HasNonLoadUse (P2 b) = HasNonLoadUse (P b)"
        using p(3) by (simp add: lo_rel_def P1_def)
      show ?thesis
      proof (cases R)
        case None
        then have e: "getLiveOut1 (Suc n) F P BB = Inr (None, P2(BB := (P2 BB)\<lparr>LOState := IsUnknown\<rparr>))"
          using IsUnknown False r by (simp add: P1_def [symmetric] Let_def)
        have "sized 1 (P2(BB := (P2 BB)\<lparr>LOState := IsUnknown\<rparr>))"
          using p(1) by (simp add: sized_def)
        moreover have "known_inv (P2(BB := (P2 BB)\<lparr>LOState := IsUnknown\<rparr>))"
          by (rule known_inv_mark [OF p(2)]) simp
        moreover have "lo_rel P (P2(BB := (P2 BB)\<lparr>LOState := IsUnknown\<rparr>))"
          using IsUnknown hn other by (simp add: lo_rel_def)
        ultimately show ?thesis using e by (simp add: lo_post1_def)
      next
        case (Some K)
        define S where "S = (P2 BB)\<lparr>Availability := set_DIKind (Availability (P2 BB)) 0 K, LOState := IsKnown\<rparr>"
        have s: "setBlockAvailability1 (P2 BB) K = Inr S"
          using ip sz2 by (simp add: setBlockAvailability1_Inr S_def)
        have e: "getLiveOut1 (Suc n) F P BB = Inr (Some K, P2(BB := S))"
          using IsUnknown False r Some s by (simp add: P1_def [symmetric] Let_def)
        have "sized 1 (P2(BB := S))" using p(1) by (simp add: sized_def S_def)
        moreover have "known_inv (P2(BB := S))"
          by (rule known_inv_set [OF p(2)]) (simp add: S_def set1_no_unknown sz2)
        moreover have "lo_rel P (P2(BB := S))"
          using IsUnknown hn other by (simp add: lo_rel_def S_def)
        ultimately show ?thesis using e by (simp add: lo_post1_def)
      qed
    qed
  qed
qed

subsection \<open>Liveness at an instruction\<close>

lemma fold_get_other:
  assumes "\<And>i D. i \<noteq> j \<Longrightarrow> getConditional (f i D) j = getConditional D j"
  shows "j \<notin> set xs \<Longrightarrow> getConditional (fold f xs D) j = getConditional D j"
  by (induction xs arbitrary: D) (simp_all add: assms)

lemma fold_get_defined:
  assumes other: "\<And>i j D. i \<noteq> j \<Longrightarrow> getConditional (f i D) j = getConditional D j"
    and same: "\<And>i D. i < size_av D \<Longrightarrow> getConditional (f i D) i \<noteq> None"
    and sz: "\<And>i D. size_av (f i D) = size_av D"
  shows "distinct xs \<Longrightarrow> j \<in> set xs \<Longrightarrow> j < size_av D \<Longrightarrow> getConditional (fold f xs D) j \<noteq> None"
proof (induction xs arbitrary: D)
  case Nil
  then show ?case by simp
next
  case (Cons x xs)
  show ?case
  proof (cases "j = x")
    case True
    then have "j \<notin> set xs" using Cons.prems(1) by simp
    then have "getConditional (fold f xs (f x D)) j = getConditional (f x D) j"
      by (rule fold_get_other [rotated]) (simp add: other)
    then show ?thesis using True same [of x D] Cons.prems(3) by simp
  next
    case False
    then have "j \<in> set xs" using Cons.prems(2) by simp
    then show ?thesis using Cons.IH [of "f x D"] Cons.prems by (simp add: sz)
  qed
qed

lemma changeUnsetElementsTo_defined:
  "j < size_av D \<Longrightarrow> getConditional (changeUnsetElementsTo D K) j \<noteq> None"
  unfolding changeUnsetElementsTo_def
  by (rule fold_get_defined) (auto simp: get_set_DIKind_other get_set_DIKind_same)

lemma changeUnsetElementsTo_no_unknown:
  "\<not> containsUnknownElements (changeUnsetElementsTo D K)"
  using changeUnsetElementsTo_defined [of _ D K]
  by (auto simp: containsUnknownElements_iff)

lemma length_set_range [simp]: "length (set_range B I E v) = length B"
proof -
  have "\<And>B. length (fold (\<lambda>i B. B[i := v]) xs B) = length B" for xs
    by (induction xs) simp_all
  then show ?thesis by (simp add: set_range_def)
qed

lemma scanBlockN_ok:
  assumes wf: "wf_uses C" and n: "N = MemoryNumElements (TheMemory C)"
    and r: "size_av Result = N" and w: "FirstElt + NumElts \<le> N"
  shows "length Needed = N \<Longrightarrow>
         (\<exists>R. scanBlockN C FirstElt NumElts Result Needed Is = Inr (Decided R)
               \<and> size_av R = N \<and> window_defined FirstElt NumElts R)
         \<or> (\<exists>Needed'. scanBlockN C FirstElt NumElts Result Needed Is = Inr (StillNeeded Needed')
               \<and> length Needed' = N)"
proof (induction Is arbitrary: Needed)
  case Nil
  then show ?case by simp
next
  case (Cons TheInst Is)
  show ?case
  proof (cases "NonLoadUses C TheInst")
    case None
    then show ?thesis using Cons by simp
  next
    case (Some It)
    show ?thesis
    proof (cases "TheInst = MemoryInst (TheMemory C)")
      case True
      define R where "R = fold (\<lambda>i R. set_DIKind R i (if Needed ! i then No else Yes))
                            [FirstElt..<FirstElt + NumElts] Result"
      have e: "scanBlockN C FirstElt NumElts Result Needed (TheInst # Is) = Inr (Decided R)"
        using Some True by (simp add: R_def)
      have s: "size_av R = N"
        unfolding R_def using r by (subst fold_size_av) simp_all
      have "getConditional R j \<noteq> None" if "FirstElt \<le> j" "j < FirstElt + NumElts" for j
        unfolding R_def
        by (rule fold_get_defined)
           (use that r w in \<open>auto simp: get_set_DIKind_other get_set_DIKind_same\<close>)
      then show ?thesis using e s by (simp add: window_defined_def)
    next
      case False
      then have u: "It < length (Uses C)"
        "FirstElement (Uses C ! It) + NumElements (Uses C ! It) \<le> N"
        using wf Some n by (auto simp: wf_uses_def)
      define Needed' where "Needed' = set_range Needed (FirstElement (Uses C ! It))
                      (FirstElement (Uses C ! It) + NumElements (Uses C ! It)) False"
      show ?thesis
      proof (cases "none_bits Needed'")
        case True
        have e: "scanBlockN C FirstElt NumElts Result Needed (TheInst # Is)
                   = Inr (Decided (changeUnsetElementsTo Result Yes))"
          using Some False u True Cons.prems by (simp add: Needed'_def [symmetric] Let_def)
        have "window_defined FirstElt NumElts (changeUnsetElementsTo Result Yes)"
          using r w by (simp add: window_defined_def changeUnsetElementsTo_defined)
        then show ?thesis using e r by simp
      next
        case nb: False
        have e: "scanBlockN C FirstElt NumElts Result Needed (TheInst # Is)
                   = scanBlockN C FirstElt NumElts Result Needed' Is"
          using Some False u nb Cons.prems by (simp add: Needed'_def [symmetric] Let_def)
        have "length Needed' = N" using Cons.prems by (simp add: Needed'_def)
        from Cons.IH [OF this] e show ?thesis by simp
      qed
    qed
  qed
qed

lemma card_pending_le: "card (pending F P) \<le> length (getBlocks F)"
proof -
  have "card (pending F P) \<le> card (set (getBlocks F))"
    by (rule card_mono) (auto simp: pending_def)
  also have "\<dots> \<le> length (getBlocks F)" by (rule card_length)
  finally show ?thesis .
qed

lemma wf_checker_PerBlockInfo:
  "wf_checker C \<Longrightarrow> sized (MemoryNumElements (TheMemory C)) P' \<Longrightarrow> known_inv P'
   \<Longrightarrow> wf_checker (C\<lparr>PerBlockInfo := P'\<rparr>)"
  by (simp add: wf_checker_def wf_uses_def)

lemma getLivenessAtInst_ok:
  assumes wf: "wf_checker C" and bb: "getParent (Fn C) I \<in> set (getBlocks (Fn C))"
    and ne: "0 < NumElts" and w: "FirstElt + NumElts \<le> MemoryNumElements (TheMemory C)"
    and fuel: "length (getBlocks (Fn C)) < fuel"
  shows "liveness_post C FirstElt NumElts (getLivenessAtInst fuel C I FirstElt NumElts)"
proof -
  let ?N = "MemoryNumElements (TheMemory C)"
  let ?F = "Fn C"
  let ?P = "PerBlockInfo C"
  let ?BB = "getParent (Fn C) I"
  have cl: "closedCFG ?F" and sz: "sized ?N ?P" and ki: "known_inv ?P" and wu: "wf_uses C"
    using wf by (simp_all add: wf_checker_def)
  have ps: "set (getPreds ?F ?BB) \<subseteq> set (getBlocks ?F)"
    using cl bb by (simp add: closedCFG_def)
  have cp: "card (pending ?F ?P) < fuel"
    using card_pending_le [of ?F ?P] fuel by simp
  have ne0: "NumElts \<noteq> 0" using ne by simp
  show ?thesis
  proof (cases "?N = 1")
    case True
    then have win: "FirstElt = 0" "NumElts = 1" using ne w by simp_all
    let ?scan = "(if HasNonLoadUse (?P ?BB) then scanBlock1 C (instsBefore ?F I) else None)"
    show ?thesis
    proof (cases ?scan)
      case (Some K)
      have e: "getLivenessAtInst fuel C I FirstElt NumElts
                      = Inr (set_DIKind (AvailabilitySet 1) 0 K, C)"
        unfolding getLivenessAtInst_def Let_def
        by (simp only: simp_thms ne0 True Some if_True if_False option.case)
      have "window_defined FirstElt NumElts (set_DIKind (AvailabilitySet 1) 0 K)"
        using win by (auto simp: window_defined_def get_set_DIKind_same)
      then show ?thesis
        using e True wf by (auto simp: liveness_post_def)
    next
      case None
      have "lo_post1 ?P (getPredsLiveOut1 fuel ?F ?P (getPreds ?F ?BB) None)"
        using getPredsLiveOut1_total [where F = "?F" and n = fuel and P = "?P"
              and Ps = "getPreds ?F ?BB" and ?R0.0 = None]
          getLiveOut1_total [OF cl, where n = fuel] sz ki ps cp True
        by simp
      then obtain R P' where
        r: "getPredsLiveOut1 fuel ?F ?P (getPreds ?F ?BB) None = Inr (R, P')"
        and p: "sized 1 P'" "known_inv P'" "lo_rel ?P P'"
        by (auto simp: lo_post1_def split: sum.splits)
      define R' where "R' = set_Optional (AvailabilitySet 1) 0 (if R = None then Some Yes else R)"
      have e: "getLivenessAtInst fuel C I FirstElt NumElts = Inr (R', C\<lparr>PerBlockInfo := P'\<rparr>)"
        unfolding getLivenessAtInst_def Let_def R'_def
        by (simp only: simp_thms ne0 True None r if_True if_False option.case sum.case prod.case)
      have "getConditional R' 0 \<noteq> None"
        by (auto simp: R'_def get_set_Optional_same get_set_DIKind_same)
      then have "window_defined FirstElt NumElts R'"
        using win by (auto simp: window_defined_def)
      moreover have "size_av R' = 1" by (simp add: R'_def)
      moreover have "wf_checker (C\<lparr>PerBlockInfo := P'\<rparr>)"
        using wf p True by (intro wf_checker_PerBlockInfo) simp_all
      ultimately show ?thesis
        using e True p(3) by (simp add: liveness_post_def)
    qed
  next
    case False
    let ?Needed = "set_range (replicate ?N False) FirstElt (FirstElt + NumElts) True"
    let ?scan = "(if HasNonLoadUse (?P ?BB)
                     then scanBlockN C FirstElt NumElts (AvailabilitySet ?N) ?Needed (instsBefore ?F I)
                     else Inr (StillNeeded ?Needed))"
    have ln: "length ?Needed = ?N" by simp
    have sc: "(\<exists>R. ?scan = Inr (Decided R) \<and> size_av R = ?N \<and> window_defined FirstElt NumElts R)
         \<or> (\<exists>Needed'. ?scan = Inr (StillNeeded Needed') \<and> length Needed' = ?N)"
      using scanBlockN_ok [OF wu refl _ _ ln, of "AvailabilitySet ?N" FirstElt NumElts "instsBefore ?F I"] w
      by auto
    have nw: "\<not> ?N < FirstElt + NumElts" using w by simp
    from sc show ?thesis
    proof (elim disjE exE conjE)
      fix R assume s: "?scan = Inr (Decided R)" and "size_av R = ?N" "window_defined FirstElt NumElts R"
      moreover have "getLivenessAtInst fuel C I FirstElt NumElts = Inr (R, C)"
        unfolding getLivenessAtInst_def Let_def
        by (simp only: simp_thms ne0 False nw s if_True if_False sum.case scan_result.case)
      ultimately show ?thesis using wf by (auto simp: liveness_post_def)
    next
      fix Needed' assume s: "?scan = Inr (StillNeeded Needed')" and l: "length Needed' = ?N"
      have "lo_post ?P (getPredsLiveOutN fuel ?F ?N ?P (getPreds ?F ?BB) (AvailabilitySet ?N))"
        using getPredsLiveOutN_total [where F = "?F" and n = fuel and N = "?N" and P = "?P"
              and Ps = "getPreds ?F ?BB" and ?R0.0 = "AvailabilitySet ?N"]
          getLiveOutN_total [OF cl, where n = fuel and N = "?N"] ps cp
        by simp
      then obtain R P' where
        r: "getPredsLiveOutN fuel ?F ?N ?P (getPreds ?F ?BB) (AvailabilitySet ?N) = Inr (R, P')"
        and p3: "lo_rel ?P P'"
        by (auto simp: lo_post_def split: sum.splits)
      have p: "size_av R = ?N" "sized ?N P'"
        using getPredsLiveOutN_sized [OF getLiveOutN_sized r sz] by simp_all
      have k: "known_inv P'"
        using getPredsLiveOutN_known_inv [OF getLiveOutN_known_inv r ki] by simp
      define R' where "R' = fold (\<lambda>i R. if \<not> Needed' ! i \<or> getConditional R i = None
                                          then set_DIKind R i Yes else R)
                               [FirstElt..<FirstElt + NumElts] R"
      have e: "getLivenessAtInst fuel C I FirstElt NumElts = Inr (R', C\<lparr>PerBlockInfo := P'\<rparr>)"
        unfolding getLivenessAtInst_def Let_def R'_def
        by (simp only: simp_thms ne0 False nw s r if_True if_False sum.case scan_result.case prod.case)
      have sr: "size_av R' = ?N"
        unfolding R'_def using p(1) by (subst fold_size_av) simp_all
      have "getConditional R' j \<noteq> None" if "FirstElt \<le> j" "j < FirstElt + NumElts" for j
        unfolding R'_def
        by (rule fold_get_defined)
           (use that p(1) w in \<open>auto simp: get_set_DIKind_other get_set_DIKind_same\<close>)
      then have "window_defined FirstElt NumElts R'" by (simp add: window_defined_def)
      moreover have "wf_checker (C\<lparr>PerBlockInfo := P'\<rparr>)"
        using wf p k by (intro wf_checker_PerBlockInfo) simp_all
      ultimately show ?thesis
        using e sr p3 by (simp add: liveness_post_def)
    qed
  qed
qed

subsection \<open>The constructor\<close>

lemma set_DIKind_keeps_defined:
  "j < size_av D \<Longrightarrow> getConditional D j \<noteq> None \<Longrightarrow> getConditional (set_DIKind D i K) j \<noteq> None"
  by (cases "i = j") (simp_all add: get_set_DIKind_same get_set_DIKind_other)

lemma fold_set_keeps_defined:
  "j < size_av D \<Longrightarrow> getConditional D j \<noteq> None
   \<Longrightarrow> getConditional (fold (\<lambda>i D. set_DIKind D (g i) K) xs D) j \<noteq> None"
proof (induction xs arbitrary: D)
  case Nil
  then show ?case by simp
next
  case (Cons x xs)
  have "getConditional (set_DIKind D (g x) K) j \<noteq> None"
    using Cons.prems by (rule set_DIKind_keeps_defined)
  moreover have "j < size_av (set_DIKind D (g x) K)" using Cons.prems(1) by simp
  ultimately show ?case using Cons.IH [of "set_DIKind D (g x) K"] by simp
qed

lemma markAvailable_props:
  assumes "markAvailable S U = Inr S'"
  shows "size_av (Availability S') = size_av (Availability S)"
    and "LOState S' = LOState S"
    and "\<not> containsUnknownElements (Availability S) \<Longrightarrow> \<not> containsUnknownElements (Availability S')"
proof -
  let ?A = "fold (\<lambda>i D. set_DIKind D (FirstElement U + i) Yes) [1..<NumElements U]
               (set_DIKind (Availability S) (FirstElement U) Yes)"
  have e: "S' = S \<or> S' = S\<lparr>Availability := ?A\<rparr>"
    using assms by (auto simp: markAvailable_def split: if_splits)
  have sz: "size_av ?A = size_av (Availability S)"
    by (subst fold_size_av) simp_all
  show "size_av (Availability S') = size_av (Availability S)"
    using e sz by auto
  show "LOState S' = LOState S" using e by auto
  assume nu: "\<not> containsUnknownElements (Availability S)"
  have "getConditional ?A j \<noteq> None" if "j < size_av (Availability S)" for j
    using that nu
    by (intro fold_set_keeps_defined set_DIKind_keeps_defined)
       (auto simp: containsUnknownElements_iff)
  then have "\<not> containsUnknownElements ?A"
    using sz by (auto simp: containsUnknownElements_iff)
  then show "\<not> containsUnknownElements (Availability S')"
    using e nu by auto
qed

lemma isAllYes_no_unknown: "isAllYes D \<Longrightarrow> \<not> containsUnknownElements D"
  by (auto simp: isAllYes_def isAll_def containsUnknownElements_iff list_all_iff)

lemma collectUse_inv:
  assumes "collectUse C ui = Inr C'" "ctor_inv N C"
  shows "ctor_inv N C' \<and> Fn C' = Fn C \<and> TheMemory C' = TheMemory C"
proof (cases "Inst (Uses C ! ui)")
  case None
  then show ?thesis using assms by (simp add: collectUse_def Let_def)
next
  case (Some I)
  show ?thesis
  proof (cases "Kind (Uses C ! ui) = Load \<or> Kind (Uses C ! ui) = Escape")
    case True
    then show ?thesis using assms Some by (auto simp: collectUse_def Let_def)
  next
    case False
    let ?BB = "getParent (Fn C) I"
    let ?S = "(PerBlockInfo C ?BB)\<lparr>HasNonLoadUse := True\<rparr>"
    from assms(1) Some False obtain S' where
      m: "markAvailable ?S (Uses C ! ui) = Inr S'"
      and c: "C' = C\<lparr>NonLoadUses := (NonLoadUses C)(I \<mapsto> ui),
                     PerBlockInfo := (PerBlockInfo C)(?BB :=
                       (if isAllYes (Availability S') then S'\<lparr>LOState := IsKnown\<rparr> else S'))\<rparr>"
      by (auto simp: collectUse_def Let_def split: sum.splits)
    note mp = markAvailable_props [OF m]
    have sz: "size_av (Availability S') = N"
      using mp(1) assms(2) by (simp add: ctor_inv_def sized_def)
    have st: "LOState S' = LOState (PerBlockInfo C ?BB)" using mp(2) by simp
    have nu: "LOState S' = IsKnown \<Longrightarrow> \<not> containsUnknownElements (Availability S')"
      using mp(3) st assms(2) by (simp add: ctor_inv_def known_inv_def)
    have "sized N (PerBlockInfo C')"
      using c sz assms(2) by (simp add: ctor_inv_def sized_def)
    moreover have "known_inv (PerBlockInfo C')"
      using c nu assms(2) isAllYes_no_unknown [of "Availability S'"]
      by (auto simp: ctor_inv_def known_inv_def)
    ultimately show ?thesis using c by (simp add: ctor_inv_def)
  qed
qed

lemma collectUses_inv:
  "collectUses C uis = Inr C' \<Longrightarrow> ctor_inv N C
   \<Longrightarrow> ctor_inv N C' \<and> Fn C' = Fn C \<and> TheMemory C' = TheMemory C"
proof (induction uis arbitrary: C)
  case Nil
  then show ?case by simp
next
  case (Cons ui uis)
  from Cons.prems(1) obtain C1 where a: "collectUse C ui = Inr C1" and b: "collectUses C1 uis = Inr C'"
    by (auto split: sum.splits)
  from collectUse_inv [OF a Cons.prems(2)] Cons.IH [OF b] show ?case by simp
qed

lemma LifetimeChecker_inv:
  assumes "LifetimeChecker F M Us Rs = Inr C"
  shows "sized (MemoryNumElements M) (PerBlockInfo C) \<and> known_inv (PerBlockInfo C)
         \<and> Fn C = F \<and> TheMemory C = M"
proof -
  let ?N = "MemoryNumElements M"
  let ?C0 = "\<lparr>Fn = F, TheMemory = M, Uses = Us, Releases = Rs, ConditionalDestroys = [],
                PerBlockInfo = PerBlockInfo_init ?N,
                NonLoadUses = Map.empty, HasConditionalInitAssignOrDestroys = False,
                EmittedErrorLocs = [], BlocksReachableFromEntry = [], Diags = []\<rparr>"
  have i0: "ctor_inv ?N ?C0"
    by (simp add: ctor_inv_def sized_def known_inv_def PerBlockInfo_init_def LiveOutBlockState_def)
  from assms obtain C1 where
    a: "collectUses ?C0 [0..<length Us] = Inr C1"
    and c: "C = C1\<lparr>NonLoadUses := (NonLoadUses C1)(MemoryInst M \<mapsto> 4294967295),
                 PerBlockInfo := (PerBlockInfo C1)(getParent F (MemoryInst M) :=
                   (PerBlockInfo C1 (getParent F (MemoryInst M)))
                     \<lparr>HasNonLoadUse := True,
                      Availability := changeUnsetElementsTo
                         (Availability (PerBlockInfo C1 (getParent F (MemoryInst M)))) No,
                      LOState := IsKnown\<rparr>)\<rparr>"
    by (auto simp: LifetimeChecker_def Let_def split: sum.splits)
  from collectUses_inv [OF a i0] have i1: "ctor_inv ?N C1" "Fn C1 = F" "TheMemory C1 = M"
    by simp_all
  have "sized ?N (PerBlockInfo C)"
    using c i1(1) by (simp add: ctor_inv_def sized_def)
  moreover have "known_inv (PerBlockInfo C)"
    using c i1(1) by (simp add: ctor_inv_def known_inv_def changeUnsetElementsTo_no_unknown)
  ultimately show ?thesis using c i1 by simp
qed

lemma getPredsLiveOutN_known_inv':
  "getPredsLiveOutN n F N P Ps R0 = Inr (R, P') \<Longrightarrow> known_inv P \<Longrightarrow> known_inv P'"
  by (rule getPredsLiveOutN_known_inv [OF getLiveOutN_known_inv])

lemma getPredsLiveOut1_known_inv':
  "getPredsLiveOut1 n F P Ps R0 = Inr (R, P') \<Longrightarrow> known_inv P \<Longrightarrow> known_inv P'"
  by (rule getPredsLiveOut1_known_inv [OF getLiveOut1_known_inv])

lemma getLivenessAtInst_known_inv:
  assumes "getLivenessAtInst n C I FirstElt NumElts = Inr (R, C')"
    and "known_inv (PerBlockInfo C)"
  shows "known_inv (PerBlockInfo C')"
proof -
  let ?N = "MemoryNumElements (TheMemory C)"
  let ?BB = "getParent (Fn C) I"
  have "C' = C
     \<or> (\<exists>R0 P'. getPredsLiveOut1 n (Fn C) (PerBlockInfo C) (getPreds (Fn C) ?BB) None = Inr (R0, P')
                  \<and> C' = C\<lparr>PerBlockInfo := P'\<rparr>)
     \<or> (\<exists>R0 P'. getPredsLiveOutN n (Fn C) ?N (PerBlockInfo C) (getPreds (Fn C) ?BB)
                     (AvailabilitySet ?N) = Inr (R0, P')
                  \<and> C' = C\<lparr>PerBlockInfo := P'\<rparr>)"
    using assms(1) unfolding getLivenessAtInst_def Let_def
    by (simp split: if_splits option.splits sum.splits scan_result.splits prod.splits)
  then show ?thesis
    using assms(2) getPredsLiveOut1_known_inv' getPredsLiveOutN_known_inv'
    by (elim disjE exE conjE) auto
qed

lemma setBlockAvailability_Inr:
  "setBlockAvailability S AV = Inr S' \<Longrightarrow>
     LOState S' = IsKnown \<and> \<not> containsUnknownElements (Availability S')"
  by (auto simp: setBlockAvailability_def split: if_splits)

lemma lo_post_Inr: "lo_post P res \<Longrightarrow> \<exists>R P'. res = Inr (R, P') \<and> lo_rel P P'"
  by (auto simp: lo_post_def split: sum.splits)

lemma lo_post1_Inr: "lo_post1 P res \<Longrightarrow> \<exists>R P'. res = Inr (R, P') \<and> lo_rel P P'"
  by (auto simp: lo_post1_def split: sum.splits)

lemma liveness_post_Inr:
  "liveness_post C FirstElt NumElts res \<Longrightarrow>
     \<exists>R C'. res = Inr (R, C') \<and> size_av R = MemoryNumElements (TheMemory C)
            \<and> window_defined FirstElt NumElts R \<and> wf_checker C'
            \<and> C' = C\<lparr>PerBlockInfo := PerBlockInfo C'\<rparr>
            \<and> lo_rel (PerBlockInfo C) (PerBlockInfo C')"
  by (auto simp: liveness_post_def split: sum.splits)

subsection \<open>The value of an element that the merge has left Unknown\<close>

lemma fold_rescue_value:
  "distinct xs \<Longrightarrow> j \<in> set xs \<Longrightarrow> j < size_av D \<Longrightarrow>
   getConditional (fold (\<lambda>i R. if \<not> Needed ! i \<or> getConditional R i = None
                               then set_DIKind R i Yes else R) xs D) j
     = (if \<not> Needed ! j \<or> getConditional D j = None then Some Yes else getConditional D j)"
proof (induction xs arbitrary: D)
  case Nil
  then show ?case by simp
next
  case (Cons x xs)
  let ?f = "\<lambda>i R. if \<not> Needed ! i \<or> getConditional R i = None then set_DIKind R i Yes else R"
  show ?case
  proof (cases "j = x")
    case True
    then have "j \<notin> set xs" using Cons.prems(1) by simp
    then have "getConditional (fold ?f xs (?f x D)) j = getConditional (?f x D) j"
      by (rule fold_get_other [rotated]) (simp add: get_set_DIKind_other)
    then show ?thesis using True Cons.prems(3) by (simp add: get_set_DIKind_same)
  next
    case False
    then have j: "j \<in> set xs" using Cons.prems(2) by simp
    have d: "distinct xs" using Cons.prems(1) by simp
    have s: "j < size_av (?f x D)" using Cons.prems(3) by simp
    have g: "getConditional (?f x D) j = getConditional D j"
      using False by (simp add: get_set_DIKind_other)
    show ?thesis
      using Cons.IH [OF d j s] g by simp
  qed
qed

lemma getLivenessAtInst_rescueN:
  assumes n1: "MemoryNumElements (TheMemory C) \<noteq> 1"
    and ne: "0 < NumElts" and w: "FirstElt + NumElts \<le> MemoryNumElements (TheMemory C)"
    and sz: "sized (MemoryNumElements (TheMemory C)) (PerBlockInfo C)"
    and s: "localScanN C I FirstElt NumElts = Inr (StillNeeded Needed)"
    and m: "predsMergeN fuel C I = Inr (R0, P')"
    and r: "getLivenessAtInst fuel C I FirstElt NumElts = Inr (R, C')"
    and i: "FirstElt \<le> i" "i < FirstElt + NumElts"
  shows "get R i = Inr (if Needed ! i then (case getConditional R0 i of None \<Rightarrow> Yes | Some K \<Rightarrow> K)
                        else Yes)"
proof -
  let ?N = "MemoryNumElements (TheMemory C)"
  have ne0: "NumElts \<noteq> 0" using ne by simp
  have nw: "\<not> ?N < FirstElt + NumElts" using w by simp
  have s': "(if HasNonLoadUse (PerBlockInfo C (getParent (Fn C) I))
             then scanBlockN C FirstElt NumElts (AvailabilitySet ?N)
                    (set_range (replicate ?N False) FirstElt (FirstElt + NumElts) True)
                    (instsBefore (Fn C) I)
             else Inr (StillNeeded (set_range (replicate ?N False) FirstElt (FirstElt + NumElts) True)))
            = Inr (StillNeeded Needed)"
    using s by (simp add: localScanN_def Let_def)
  have m': "getPredsLiveOutN fuel (Fn C) ?N (PerBlockInfo C) (getPreds (Fn C) (getParent (Fn C) I))
              (AvailabilitySet ?N) = Inr (R0, P')"
    using m by (simp add: predsMergeN_def Let_def)
  have e: "getLivenessAtInst fuel C I FirstElt NumElts
      = Inr (fold (\<lambda>i R. if \<not> Needed ! i \<or> getConditional R i = None
                           then set_DIKind R i Yes else R)
               [FirstElt..<FirstElt + NumElts] R0, C\<lparr>PerBlockInfo := P'\<rparr>)"
    unfolding getLivenessAtInst_def Let_def
    by (simp only: simp_thms ne0 n1 nw s' m' if_True if_False sum.case scan_result.case prod.case)
  have "size_av R0 = ?N"
    using getPredsLiveOutN_sized [OF getLiveOutN_sized m' sz] by simp
  then have "i < size_av R0" using i w by simp
  then have "getConditional R i
     = (if \<not> Needed ! i \<or> getConditional R0 i = None then Some Yes else getConditional R0 i)"
    using e r i fold_rescue_value [of "[FirstElt..<FirstElt + NumElts]" i R0 Needed]
    by simp
  then show ?thesis
    by (auto simp: get_def split: option.splits)
qed

lemma getLivenessAtInst_rescue1:
  assumes n1: "MemoryNumElements (TheMemory C) = 1"
    and ne: "0 < NumElts"
    and s: "localScan1 C I = None"
    and m: "predsMerge1 fuel C I = Inr (V, P')"
    and r: "getLivenessAtInst fuel C I FirstElt NumElts = Inr (R, C')"
  shows "get R 0 = Inr (case V of None \<Rightarrow> Yes | Some K \<Rightarrow> K)"
proof -
  have ne0: "NumElts \<noteq> 0" using ne by simp
  have s': "(if HasNonLoadUse (PerBlockInfo C (getParent (Fn C) I))
             then scanBlock1 C (instsBefore (Fn C) I) else None) = None"
    using s by (simp add: localScan1_def)
  have m': "getPredsLiveOut1 fuel (Fn C) (PerBlockInfo C) (getPreds (Fn C) (getParent (Fn C) I)) None
             = Inr (V, P')"
    using m by (simp add: predsMerge1_def)
  have e: "getLivenessAtInst fuel C I FirstElt NumElts
      = Inr (set_Optional (AvailabilitySet 1) 0 (if V = None then Some Yes else V),
             C\<lparr>PerBlockInfo := P'\<rparr>)"
    unfolding getLivenessAtInst_def Let_def
    by (simp only: simp_thms ne0 n1 s' m' if_True if_False option.case sum.case prod.case)
  have "getConditional R 0 = (if V = None then Some Yes else V)"
    using e r by (auto simp: get_set_Optional_same)
  then show ?thesis
    by (auto simp: get_def split: option.splits)
qed
section \<open>Facts about the state transitions\<close>

lemma writes_simps [simp]:
  "writes B [] = []"
  "writes B ((B', s) # tr) = (if B' = B then s # writes B tr else writes B tr)"
  "writes B (tr @ tr') = writes B tr @ writes B tr'"
  by (simp_all add: writes_def)

lemma length_writes: "length (writes B tr) \<le> length tr"
  by (simp add: writes_def)

lemma walk_append:
  "walk s (xs @ ys) = (case walk s xs of None \<Rightarrow> None | Some s' \<Rightarrow> walk s' ys)"
  by (induction xs arbitrary: s) simp_all

lemma trace_rel_Nil [simp]: "trace_rel F P P []"
  by (simp add: trace_rel_def)

lemma trace_rel_append:
  "trace_rel F P P' tr \<Longrightarrow> trace_rel F P' P'' tr' \<Longrightarrow> trace_rel F P P'' (tr @ tr')"
  by (simp add: trace_rel_def walk_append)

lemma trace_rel_wrap:
  assumes u: "LOState (P BB) = IsUnknown"
    and t: "trace_rel F (P(BB := (P BB)\<lparr>LOState := IsComputingLiveOut\<rparr>)) P2 tr"
    and ip: "LOState (P2 BB) = IsComputingLiveOut"
    and s: "s = IsKnown \<or> s = IsUnknown"
    and e: "LOState S = s"
  shows "trace_rel F P (P2(BB := S)) ((BB, IsComputingLiveOut) # tr @ [(BB, s)])"
  unfolding trace_rel_def
proof
  fix B
  show "walk (LOState (P B)) (writes B ((BB, IsComputingLiveOut) # tr @ [(BB, s)]))
          = Some (LOState ((P2(BB := S)) B))"
  proof (cases "B = BB")
    case True
    from t have "walk IsComputingLiveOut (writes BB tr) = Some (LOState (P2 BB))"
      by (auto simp: trace_rel_def dest: spec [of _ BB])
    then show ?thesis using True u ip s e by (auto simp: walk_append)
  next
    case False
    from t have "walk (LOState (P B)) (writes B tr) = Some (LOState (P2 B))"
      using False by (auto simp: trace_rel_def dest: spec [of _ B])
    then show ?thesis using False by simp
  qed
qed

lemma maxPreds_ge: "B \<in> set (getBlocks F) \<Longrightarrow> length (getPreds F B) \<le> maxPreds F"
proof -
  have "B \<in> set Bs \<Longrightarrow> length (getPreds F B) \<le> foldr (\<lambda>B m. max (length (getPreds F B)) m) Bs 0"
    for Bs
    by (induction Bs) auto
  then show "B \<in> set (getBlocks F) \<Longrightarrow> length (getPreds F B) \<le> maxPreds F"
    by (simp add: maxPreds_def)
qed

lemma bound_step:
  assumes "m \<le> d" "k1 < k" "t \<le> m * (2 * Suc d ^ k1)"
  shows "2 + t \<le> 2 * Suc d ^ k"
proof -
  obtain k' where k: "k = Suc k'" using assms(2) by (cases k) simp_all
  have "k1 \<le> k'" using assms(2) k by simp
  then have p: "Suc d ^ k1 \<le> Suc d ^ k'" by (intro power_increasing) simp_all
  have one: "1 \<le> Suc d ^ k'" by simp
  have "t \<le> d * (2 * Suc d ^ k')"
    using assms(1,3) p
    by (meson le_trans mult_le_mono mult_le_mono2)
  moreover have "2 \<le> 2 * Suc d ^ k'" using one by linarith
  ultimately have "2 + t \<le> 2 * Suc d ^ k' + d * (2 * Suc d ^ k')"
    by (rule add_mono [rotated])
  also have "\<dots> = 2 * Suc d ^ k" by (simp add: k algebra_simps)
  finally show ?thesis .
qed

lemma getPredsLiveOutN_trace_ok:
  assumes IH: "\<And>P BB. BB \<in> set (getBlocks F) \<Longrightarrow> card (pending F P) < n
                 \<Longrightarrow> tr_post F (2 * Suc d ^ card (pending F P)) P (getLiveOutN_trace n F N P BB)"
  shows "set Ps \<subseteq> set (getBlocks F) \<Longrightarrow> card (pending F P) < n
         \<Longrightarrow> tr_post F (length Ps * (2 * Suc d ^ card (pending F P))) P
               (getPredsLiveOutN_trace n F N P Ps R0)"
proof (induction Ps arbitrary: P R0)
  case Nil
  then show ?case by (simp add: tr_post_def)
next
  case (Cons Pred Ps)
  let ?b = "2 * Suc d ^ card (pending F P)"
  from IH [of Pred P] Cons.prems
  obtain R P' tr where r: "getLiveOutN_trace n F N P Pred = Inr ((R, P'), tr)"
    and p: "lo_rel P P'" and t: "trace_rel F P P' tr" and l: "length tr \<le> ?b"
    by (auto simp: tr_post_def split: sum.splits)
  have c: "card (pending F P') = card (pending F P)"
    using p by (simp add: lo_rel_pending)
  then have "card (pending F P') < n" using Cons.prems(2) by simp
  with Cons.IH [of P' "mergeIn R0 R"] Cons.prems
  have "tr_post F (length Ps * (2 * Suc d ^ card (pending F P'))) P'
          (getPredsLiveOutN_trace n F N P' Ps (mergeIn R0 R))"
    by simp
  then obtain R2 P2 tr2 where
    r2: "getPredsLiveOutN_trace n F N P' Ps (mergeIn R0 R) = Inr ((R2, P2), tr2)"
    and p2: "lo_rel P' P2" and t2: "trace_rel F P' P2 tr2" and l2: "length tr2 \<le> length Ps * ?b"
    by (auto simp: tr_post_def c split: sum.splits)
  have e: "getPredsLiveOutN_trace n F N P (Pred # Ps) R0 = Inr ((R2, P2), tr @ tr2)"
    using r r2 by simp
  have "length (tr @ tr2) \<le> length (Pred # Ps) * ?b" using l l2 by simp
  then show ?case
    unfolding e tr_post_def
    using lo_rel_trans [OF p p2] trace_rel_append [OF t t2] by simp
qed

lemma getLiveOutN_trace_ok:
  assumes cl: "closedCFG F"
  shows "BB \<in> set (getBlocks F) \<Longrightarrow> card (pending F P) < n
         \<Longrightarrow> tr_post F (2 * Suc (maxPreds F) ^ card (pending F P)) P (getLiveOutN_trace n F N P BB)"
proof (induction n arbitrary: P BB)
  case 0
  then show ?case by simp
next
  case (Suc n)
  show ?case
  proof (cases "LOState (P BB)")
    case IsKnown
    then show ?thesis by (simp add: tr_post_def)
  next
    case IsComputingLiveOut
    then show ?thesis by (simp add: tr_post_def)
  next
    case IsUnknown
    define P1 where "P1 = P(BB := (P BB)\<lparr>LOState := IsComputingLiveOut\<rparr>)"
    have c0: "card (pending F P1) < card (pending F P)"
      using pending_mark [of BB F P] Suc.prems(1) IsUnknown by (simp add: P1_def)
    then have c1: "card (pending F P1) < n" using Suc.prems(2) by simp
    have ps: "set (getPreds F BB) \<subseteq> set (getBlocks F)"
      using cl Suc.prems(1) by (simp add: closedCFG_def)
    have "tr_post F (length (getPreds F BB) * (2 * Suc (maxPreds F) ^ card (pending F P1))) P1
            (getPredsLiveOutN_trace n F N P1 (getPreds F BB) (AvailabilitySet N))"
      by (rule getPredsLiveOutN_trace_ok [OF Suc.IH ps c1])
    then obtain R P2 tr where
      r: "getPredsLiveOutN_trace n F N P1 (getPreds F BB) (AvailabilitySet N) = Inr ((R, P2), tr)"
      and p: "lo_rel P1 P2" and t: "trace_rel F P1 P2 tr"
      and l: "length tr \<le> length (getPreds F BB) * (2 * Suc (maxPreds F) ^ card (pending F P1))"
      by (auto simp: tr_post_def split: sum.splits)
    have ip: "LOState (P2 BB) = IsComputingLiveOut"
      using p by (simp add: lo_rel_def P1_def)
    have hn: "HasNonLoadUse (P2 BB) = HasNonLoadUse (P BB)"
      using p by (simp add: lo_rel_def P1_def)
    have other: "\<And>b. b \<noteq> BB \<Longrightarrow> (LOState (P b) = IsKnown \<longrightarrow> P2 b = P b)
        \<and> (LOState (P2 b) = IsComputingLiveOut \<longleftrightarrow> LOState (P b) = IsComputingLiveOut)
        \<and> HasNonLoadUse (P2 b) = HasNonLoadUse (P b)"
      using p by (simp add: lo_rel_def P1_def)
    have b: "2 + length tr \<le> 2 * Suc (maxPreds F) ^ card (pending F P)"
      by (rule bound_step [OF maxPreds_ge [OF Suc.prems(1)] c0 l])
    let ?R = "keepLocalYes N (Availability (P2 BB)) R"
    show ?thesis
    proof (cases "containsUnknownElements ?R")
      case True
      let ?P' = "P2(BB := (P2 BB)\<lparr>LOState := IsUnknown\<rparr>)"
      have e: "getLiveOutN_trace (Suc n) F N P BB
                 = Inr ((?R, ?P'), (BB, IsComputingLiveOut) # tr @ [(BB, IsUnknown)])"
        using IsUnknown r True by (simp add: P1_def [symmetric] Let_def)
      have "lo_rel P ?P'"
        using IsUnknown hn other by (simp add: lo_rel_def)
      moreover have "trace_rel F P ?P' ((BB, IsComputingLiveOut) # tr @ [(BB, IsUnknown)])"
        by (rule trace_rel_wrap [OF IsUnknown t [unfolded P1_def] ip]) simp_all
      ultimately show ?thesis
        unfolding e tr_post_def using b by simp
    next
      case False
      let ?S = "(P2 BB)\<lparr>Availability := ?R, LOState := IsKnown\<rparr>"
      have s: "setBlockAvailability (P2 BB) ?R = Inr ?S"
        using ip False by (simp add: setBlockAvailability_def)
      have e: "getLiveOutN_trace (Suc n) F N P BB
                 = Inr ((?R, P2(BB := ?S)), (BB, IsComputingLiveOut) # tr @ [(BB, IsKnown)])"
        using IsUnknown r False s by (simp add: P1_def [symmetric] Let_def)
      have "lo_rel P (P2(BB := ?S))"
        using IsUnknown hn other by (simp add: lo_rel_def)
      moreover have "trace_rel F P (P2(BB := ?S)) ((BB, IsComputingLiveOut) # tr @ [(BB, IsKnown)])"
        by (rule trace_rel_wrap [OF IsUnknown t [unfolded P1_def] ip]) simp_all
      ultimately show ?thesis
        unfolding e tr_post_def using b by simp
    qed
  qed
qed

lemma getPredsLiveOutN_trace_erase:
  assumes IH: "\<And>P BB. getLiveOutN n F N P BB
       = (case getLiveOutN_trace n F N P BB of Inl e \<Rightarrow> Inl e | Inr (x, tr) \<Rightarrow> Inr x)"
  shows "getPredsLiveOutN n F N P Ps R0
       = (case getPredsLiveOutN_trace n F N P Ps R0 of Inl e \<Rightarrow> Inl e | Inr (x, tr) \<Rightarrow> Inr x)"
  by (induction Ps arbitrary: P R0) (auto simp: IH split: sum.splits prod.splits)

lemma getLiveOutN_trace_erase:
  "getLiveOutN n F N P BB
       = (case getLiveOutN_trace n F N P BB of Inl e \<Rightarrow> Inl e | Inr (x, tr) \<Rightarrow> Inr x)"
proof (induction n arbitrary: P BB)
  case 0
  then show ?case by simp
next
  case (Suc n)
  note pe = getPredsLiveOutN_trace_erase [where n = n and F = F and N = N, OF Suc.IH]
  show ?case
    by (cases "LOState (P BB)")
       (auto simp: pe Let_def split: sum.splits prod.splits)
qed

lemma yes_is_known_mark:
  "yes_is_known P \<Longrightarrow> LOState (P BB) \<noteq> IsKnown
   \<Longrightarrow> yes_is_known (P(BB := (P BB)\<lparr>LOState := s\<rparr>))"
  by (simp add: yes_is_known_def)

lemma yes_is_known_set:
  "yes_is_known P \<Longrightarrow> LOState S = IsKnown \<Longrightarrow> yes_is_known (P(BB := S))"
  by (simp add: yes_is_known_def)

lemma getPredsLiveOut1_trace_ok:
  assumes IH: "\<And>P BB. sized 1 P \<Longrightarrow> known_inv P \<Longrightarrow> yes_is_known P
                 \<Longrightarrow> BB \<in> set (getBlocks F) \<Longrightarrow> card (pending F P) < n
                 \<Longrightarrow> tr_post1 F (2 * Suc d ^ card (pending F P)) P (getLiveOut1_trace n F P BB)"
  shows "sized 1 P \<Longrightarrow> known_inv P \<Longrightarrow> yes_is_known P
         \<Longrightarrow> set Ps \<subseteq> set (getBlocks F) \<Longrightarrow> card (pending F P) < n
         \<Longrightarrow> tr_post1 F (length Ps * (2 * Suc d ^ card (pending F P))) P
               (getPredsLiveOut1_trace n F P Ps R0)"
proof (induction Ps arbitrary: P R0)
  case Nil
  then show ?case by (simp add: tr_post1_def)
next
  case (Cons Pred Ps)
  let ?b = "2 * Suc d ^ card (pending F P)"
  from IH [of P Pred] Cons.prems
  obtain R P' tr where r: "getLiveOut1_trace n F P Pred = Inr ((R, P'), tr)"
    and i: "sized 1 P'" "known_inv P'" "yes_is_known P'"
    and p: "lo_rel P P'" and t: "trace_rel F P P' tr" and l: "length tr \<le> ?b"
    by (auto simp: tr_post1_def split: sum.splits)
  have c: "card (pending F P') = card (pending F P)"
    using p by (simp add: lo_rel_pending)
  then have "card (pending F P') < n" using Cons.prems(5) by simp
  with Cons.IH [of P' "mergeKinds R0 R"] i Cons.prems
  have "tr_post1 F (length Ps * (2 * Suc d ^ card (pending F P'))) P'
          (getPredsLiveOut1_trace n F P' Ps (mergeKinds R0 R))"
    by simp
  then obtain R2 P2 tr2 where
    r2: "getPredsLiveOut1_trace n F P' Ps (mergeKinds R0 R) = Inr ((R2, P2), tr2)"
    and i2: "sized 1 P2" "known_inv P2" "yes_is_known P2"
    and p2: "lo_rel P' P2" and t2: "trace_rel F P' P2 tr2" and l2: "length tr2 \<le> length Ps * ?b"
    by (auto simp: tr_post1_def c split: sum.splits)
  have e: "getPredsLiveOut1_trace n F P (Pred # Ps) R0 = Inr ((R2, P2), tr @ tr2)"
    using r r2 by simp
  have "length (tr @ tr2) \<le> length (Pred # Ps) * ?b" using l l2 by simp
  then show ?case
    unfolding e tr_post1_def
    using lo_rel_trans [OF p p2] trace_rel_append [OF t t2] i2 by simp
qed

lemma getLiveOut1_trace_ok:
  assumes cl: "closedCFG F"
  shows "sized 1 P \<Longrightarrow> known_inv P \<Longrightarrow> yes_is_known P
         \<Longrightarrow> BB \<in> set (getBlocks F) \<Longrightarrow> card (pending F P) < n
         \<Longrightarrow> tr_post1 F (2 * Suc (maxPreds F) ^ card (pending F P)) P (getLiveOut1_trace n F P BB)"
proof (induction n arbitrary: P BB)
  case 0
  then show ?case by simp
next
  case (Suc n)
  have sz: "size_av (Availability (P BB)) = 1" using Suc.prems(1) by (simp add: sized_def)
  show ?case
  proof (cases "LOState (P BB)")
    case IsKnown
    then have "getConditional (Availability (P BB)) 0 \<noteq> None"
      using Suc.prems(2) sz by (auto simp: known_inv_def containsUnknown_size1)
    then show ?thesis using IsKnown Suc.prems
      by (auto simp: tr_post1_def get_def split: option.splits)
  next
    case IsComputingLiveOut
    then show ?thesis using Suc.prems by (simp add: tr_post1_def)
  next
    case IsUnknown
    have False: "getConditional (Availability (P BB)) 0 \<noteq> Some Yes"
      using Suc.prems(3) IsUnknown by (simp add: yes_is_known_def)
    define P1 where "P1 = P(BB := (P BB)\<lparr>LOState := IsComputingLiveOut\<rparr>)"
    have s1: "sized 1 P1" using Suc.prems(1) by (simp add: sized_def P1_def)
    have k1: "known_inv P1"
      unfolding P1_def using Suc.prems(2) by (intro known_inv_mark) simp_all
    have y1: "yes_is_known P1"
      unfolding P1_def using Suc.prems(3) IsUnknown by (intro yes_is_known_mark) simp_all
    have c0: "card (pending F P1) < card (pending F P)"
      using pending_mark [of BB F P] Suc.prems(4) IsUnknown by (simp add: P1_def)
    then have c1: "card (pending F P1) < n" using Suc.prems(5) by simp
    have ps: "set (getPreds F BB) \<subseteq> set (getBlocks F)"
      using cl Suc.prems(4) by (simp add: closedCFG_def)
    have "tr_post1 F (length (getPreds F BB) * (2 * Suc (maxPreds F) ^ card (pending F P1))) P1
            (getPredsLiveOut1_trace n F P1 (getPreds F BB) (getConditional (Availability (P1 BB)) 0))"
      by (rule getPredsLiveOut1_trace_ok [OF Suc.IH s1 k1 y1 ps c1])
    then obtain R P2 tr where
      r: "getPredsLiveOut1_trace n F P1 (getPreds F BB) (getConditional (Availability (P1 BB)) 0)
            = Inr ((R, P2), tr)"
      and i: "sized 1 P2" "known_inv P2" "yes_is_known P2"
      and p: "lo_rel P1 P2" and t: "trace_rel F P1 P2 tr"
      and l: "length tr \<le> length (getPreds F BB) * (2 * Suc (maxPreds F) ^ card (pending F P1))"
      by (auto simp: tr_post1_def split: sum.splits)
    have ip: "LOState (P2 BB) = IsComputingLiveOut"
      using p by (simp add: lo_rel_def P1_def)
    have sz2: "size_av (Availability (P2 BB)) = 1" using i(1) by (simp add: sized_def)
    have hn: "HasNonLoadUse (P2 BB) = HasNonLoadUse (P BB)"
      using p by (simp add: lo_rel_def P1_def)
    have other: "\<And>b. b \<noteq> BB \<Longrightarrow> (LOState (P b) = IsKnown \<longrightarrow> P2 b = P b)
        \<and> (LOState (P2 b) = IsComputingLiveOut \<longleftrightarrow> LOState (P b) = IsComputingLiveOut)
        \<and> HasNonLoadUse (P2 b) = HasNonLoadUse (P b)"
      using p by (simp add: lo_rel_def P1_def)
    have b: "2 + length tr \<le> 2 * Suc (maxPreds F) ^ card (pending F P)"
      by (rule bound_step [OF maxPreds_ge [OF Suc.prems(4)] c0 l])
    show ?thesis
    proof (cases R)
      case None
      let ?P' = "P2(BB := (P2 BB)\<lparr>LOState := IsUnknown\<rparr>)"
      have e: "getLiveOut1_trace (Suc n) F P BB
                 = Inr ((None, ?P'), (BB, IsComputingLiveOut) # tr @ [(BB, IsUnknown)])"
        using IsUnknown False r None by (simp add: P1_def [symmetric] Let_def)
      have "sized 1 ?P'" using i(1) by (simp add: sized_def)
      moreover have "known_inv ?P'" by (rule known_inv_mark [OF i(2)]) simp
      moreover have "yes_is_known ?P'" using i(3) ip by (intro yes_is_known_mark) simp_all
      moreover have "lo_rel P ?P'" using IsUnknown hn other by (simp add: lo_rel_def)
      moreover have "trace_rel F P ?P' ((BB, IsComputingLiveOut) # tr @ [(BB, IsUnknown)])"
        by (rule trace_rel_wrap [OF IsUnknown t [unfolded P1_def] ip]) simp_all
      ultimately show ?thesis
        unfolding e tr_post1_def using b by simp
    next
      case (Some K)
      define S where "S = (P2 BB)\<lparr>Availability := set_DIKind (Availability (P2 BB)) 0 K, LOState := IsKnown\<rparr>"
      have s: "setBlockAvailability1 (P2 BB) K = Inr S"
        using ip sz2 by (simp add: setBlockAvailability1_Inr S_def)
      have e: "getLiveOut1_trace (Suc n) F P BB
                 = Inr ((Some K, P2(BB := S)), (BB, IsComputingLiveOut) # tr @ [(BB, IsKnown)])"
        using IsUnknown False r Some s by (simp add: P1_def [symmetric] Let_def)
      have "sized 1 (P2(BB := S))" using i(1) by (simp add: sized_def S_def)
      moreover have "known_inv (P2(BB := S))"
        by (rule known_inv_set [OF i(2)]) (simp add: S_def set1_no_unknown sz2)
      moreover have "yes_is_known (P2(BB := S))"
        by (rule yes_is_known_set [OF i(3)]) (simp add: S_def)
      moreover have "lo_rel P (P2(BB := S))"
        using IsUnknown hn other by (simp add: lo_rel_def S_def)
      moreover have "trace_rel F P (P2(BB := S)) ((BB, IsComputingLiveOut) # tr @ [(BB, IsKnown)])"
        by (rule trace_rel_wrap [OF IsUnknown t [unfolded P1_def] ip]) (simp_all add: S_def)
      ultimately show ?thesis
        unfolding e tr_post1_def using b by simp
    qed
  qed
qed

lemma getPredsLiveOut1_trace_erase:
  assumes IH: "\<And>P BB. getLiveOut1 n F P BB
       = (case getLiveOut1_trace n F P BB of Inl e \<Rightarrow> Inl e | Inr (x, tr) \<Rightarrow> Inr x)"
  shows "getPredsLiveOut1 n F P Ps R0
       = (case getPredsLiveOut1_trace n F P Ps R0 of Inl e \<Rightarrow> Inl e | Inr (x, tr) \<Rightarrow> Inr x)"
  by (induction Ps arbitrary: P R0) (auto simp: IH split: sum.splits prod.splits)

lemma getLiveOut1_trace_erase:
  "getLiveOut1 n F P BB
       = (case getLiveOut1_trace n F P BB of Inl e \<Rightarrow> Inl e | Inr (x, tr) \<Rightarrow> Inr x)"
proof (induction n arbitrary: P BB)
  case 0
  then show ?case by simp
next
  case (Suc n)
  note pe = getPredsLiveOut1_trace_erase [where n = n and F = F, OF Suc.IH]
  show ?case
    by (cases "LOState (P BB)")
       (auto simp: pe Let_def split: sum.splits prod.splits option.splits)
qed

lemma power_bound: "k \<le> n \<Longrightarrow> 2 * Suc d ^ k \<le> 2 * Suc d ^ n"
  by (simp add: power_increasing)


lemma isAllYes_size1:
  "size_av D = 1 \<Longrightarrow> isAllYes D \<longleftrightarrow> getConditional D 0 = Some Yes"
  by (simp add: isAllYes_def isAll_def upt_conv_Cons)

lemma collectUse_yes_is_known:
  assumes "collectUse C ui = Inr C'" "ctor_inv1 C"
  shows "ctor_inv1 C'"
proof (cases "Inst (Uses C ! ui)")
  case None
  then show ?thesis using assms by (simp add: collectUse_def Let_def)
next
  case (Some I)
  show ?thesis
  proof (cases "Kind (Uses C ! ui) = Load \<or> Kind (Uses C ! ui) = Escape")
    case True
    then show ?thesis using assms Some by (auto simp: collectUse_def Let_def)
  next
    case False
    let ?BB = "getParent (Fn C) I"
    let ?S = "(PerBlockInfo C ?BB)\<lparr>HasNonLoadUse := True\<rparr>"
    from assms(1) Some False obtain S' where
      m: "markAvailable ?S (Uses C ! ui) = Inr S'"
      and c: "C' = C\<lparr>NonLoadUses := (NonLoadUses C)(I \<mapsto> ui),
                     PerBlockInfo := (PerBlockInfo C)(?BB :=
                       (if isAllYes (Availability S') then S'\<lparr>LOState := IsKnown\<rparr> else S'))\<rparr>"
      by (auto simp: collectUse_def Let_def split: sum.splits)
    note mp = markAvailable_props [OF m]
    have sz: "size_av (Availability S') = 1"
      using mp(1) assms(2) by (simp add: ctor_inv1_def sized_def)
    have "sized 1 (PerBlockInfo C')"
      using c sz assms(2) by (simp add: ctor_inv1_def sized_def)
    moreover have "yes_is_known (PerBlockInfo C')"
      using c assms(2) isAllYes_size1 [OF sz]
      by (auto simp: ctor_inv1_def yes_is_known_def)
    ultimately show ?thesis by (simp add: ctor_inv1_def)
  qed
qed

lemma collectUses_yes_is_known:
  "collectUses C uis = Inr C' \<Longrightarrow> ctor_inv1 C \<Longrightarrow> ctor_inv1 C'"
proof (induction uis arbitrary: C)
  case Nil
  then show ?case by simp
next
  case (Cons ui uis)
  from Cons.prems(1) obtain C1 where a: "collectUse C ui = Inr C1" and b: "collectUses C1 uis = Inr C'"
    by (auto split: sum.splits)
  from Cons.IH [OF b collectUse_yes_is_known [OF a Cons.prems(2)]] show ?case .
qed

lemma LifetimeChecker_yes_is_known:
  assumes "LifetimeChecker F M Us Rs = Inr C" and n: "MemoryNumElements M = 1"
  shows "yes_is_known (PerBlockInfo C)"
proof -
  let ?C0 = "\<lparr>Fn = F, TheMemory = M, Uses = Us, Releases = Rs, ConditionalDestroys = [],
                PerBlockInfo = PerBlockInfo_init (MemoryNumElements M),
                NonLoadUses = Map.empty, HasConditionalInitAssignOrDestroys = False,
                EmittedErrorLocs = [], BlocksReachableFromEntry = [], Diags = []\<rparr>"
  have i0: "ctor_inv1 ?C0"
    by (simp add: ctor_inv1_def sized_def yes_is_known_def PerBlockInfo_init_def
          LiveOutBlockState_def n get_AvailabilitySet)
  from assms(1) obtain C1 where
    a: "collectUses ?C0 [0..<length Us] = Inr C1"
    and c: "C = C1\<lparr>NonLoadUses := (NonLoadUses C1)(MemoryInst M \<mapsto> 4294967295),
                 PerBlockInfo := (PerBlockInfo C1)(getParent F (MemoryInst M) :=
                   (PerBlockInfo C1 (getParent F (MemoryInst M)))
                     \<lparr>HasNonLoadUse := True,
                      Availability := changeUnsetElementsTo
                         (Availability (PerBlockInfo C1 (getParent F (MemoryInst M)))) No,
                      LOState := IsKnown\<rparr>)\<rparr>"
    by (auto simp: LifetimeChecker_def Let_def split: sum.splits)
  from collectUses_yes_is_known [OF a i0] have "yes_is_known (PerBlockInfo C1)"
    by (simp add: ctor_inv1_def)
  then show ?thesis using c by (simp add: yes_is_known_def)
qed
section \<open>Facts about the builder\<close>

lemma insertAt_Before:
  "I \<notin> set pre \<Longrightarrow> insertAt (Before I) J (pre @ I # post) = pre @ J # I # post"
  by (induction pre) simp_all

lemma createInst_Before:
  assumes "getInsts F (getParent F I) = pre @ I # post" "I \<notin> set pre" "I < NextInst F"
    and "createInst F (Before I) L X = (J, F')"
  shows "J = NextInst F \<and> NextInst F' = Suc (NextInst F)
     \<and> getInsts F' = (getInsts F)(getParent F I := pre @ [J] @ I # post)
     \<and> getParent F' I = getParent F I
     \<and> getInst F' = (getInst F)(J := X)
     \<and> getLoc F' I = getLoc F I
     \<and> getType F' = getType F"
proof -
  have "insertAt (Before I) (NextInst F) (getInsts F (getParent F I)) = pre @ NextInst F # I # post"
    using assms(1,2) by (simp del: insertAt.simps add: insertAt_Before)
  then show ?thesis
    using assms(3,4) by (auto simp: createInst_def Let_def simp del: insertAt.simps)
qed

section \<open>Facts about the classification of the uses\<close>













lemma deleteDead_skip:
  "getUsers F I \<noteq> [] \<Longrightarrow> deleteDead (Suc n) F [I] = F"
  by (cases n) simp_all

lemma recursivelyDelete_used:
  assumes "0 < NextInst F" "getUsers F I \<noteq> []"
  shows "recursivelyDeleteTriviallyDeadInstructions F I = F"
proof -
  obtain n where "2 * NextInst F = Suc n" using assms(1) by (cases "2 * NextInst F") simp_all
  then show ?thesis
    using deleteDead_skip [OF assms(2)] by (simp add: recursivelyDeleteTriviallyDeadInstructions_def)
qed
section \<open>Running the definitions on the example\<close>

lemma replicate_num: "replicate (numeral k) x = x # replicate (pred_numeral k) x"
  by (simp add: numeral_eq_Suc)

lemmas av_eval = AvailabilitySet_def size_av_def empty_av_def getConditional_def set_DIKind.simps
  set_Optional.simps(1) isAllYes_def isAll_def containsUnknownElements_def
  changeUnsetElementsTo_def mergeIn_def keepLocalYes_def replicate_num upt_conv_Cons

lemmas ex_defs = F0_def M0_def Us0_def P0_def C0_def M1_def P1_def LiveOutBlockState_def

lemma LifetimeChecker_example: "LifetimeChecker F0 M0 Us0 [] = Inr C0"
  by (simp add: LifetimeChecker_def ex_defs collectUse_def markAvailable_def
        Let_def PerBlockInfo_init_def av_eval fun_eq_iff)

lemma closedCFG_F0: "closedCFG F0"
  by (simp add: closedCFG_def F0_def)

lemma wf_uses_C0: "wf_uses C0"
  by (simp add: wf_uses_def ex_defs)

lemma wf_checker_C0: "wf_checker C0"
  using LifetimeChecker_inv [OF LifetimeChecker_example] closedCFG_F0 wf_uses_C0
  by (simp add: wf_checker_def C0_def)

lemma sized_P0: "sized 2 P0"
  using wf_checker_C0 by (simp add: wf_checker_def C0_def M0_def)

lemma sized_P1: "sized 1 P1"
  by (simp add: sized_def ex_defs av_eval)

lemma known_inv_P1: "known_inv P1"
  by (simp add: known_inv_def ex_defs av_eval)

text \<open>
  The live-out of the loop head: element 0 is Yes on both ways into the loop; element 1 is
  No from the entry and Yes from the body, hence Partial. While block 1 is being computed,
  block 2 sees it as a cycle, stays Unknown and is not cached.
\<close>

lemma getLiveOutN_example:
  "\<exists>P'. getLiveOutN (Suc (Suc (Suc 0))) F0 2 P0 1 = Inr ([False, True, True, False], P')
        \<and> LOState (P' 1) = IsKnown \<and> LOState (P' 2) = IsUnknown"
  by (simp add: ex_defs Let_def av_eval setBlockAvailability_def)

lemma getLiveOut1_example:
  "\<exists>P'. getLiveOut1 (Suc (Suc (Suc 0))) F0 P1 1 = Inr (Some Partial, P')
        \<and> LOState (P' 1) = IsKnown"
  by (simp add: ex_defs Let_def av_eval setBlockAvailability1_def get_def)

lemma getLivenessAtInst_example:
  "\<exists>C'. getLivenessAtInst (Suc (Suc (Suc (Suc (Suc 0))))) C0 14 0 2
           = Inr ([False, True, True, False], C')
        \<and> LOState (PerBlockInfo C' 1) = IsKnown"
  by (simp add: getLivenessAtInst_def ex_defs Let_def av_eval
        setBlockAvailability_def instsBefore_def set_range_def)

text \<open>In the cycle that cannot be reached, the merge of the predecessors leaves every
  element Unknown.\<close>

lemmas cyc_defs = Fcyc_def UsCyc_def Ccyc_def M0_def M1_def LiveOutBlockState_def

lemma LifetimeChecker_cyc:
  "LifetimeChecker Fcyc M0 (UsCyc 2) [] = Inr (Ccyc M0)"
  "LifetimeChecker Fcyc M1 (UsCyc 1) [] = Inr (Ccyc M1)"
  by (simp_all add: LifetimeChecker_def cyc_defs collectUse_def markAvailable_def
        Let_def PerBlockInfo_init_def av_eval fun_eq_iff)

lemma wf_checker_cyc: "wf_checker (Ccyc M0)" "wf_checker (Ccyc M1)"
proof -
  have cl: "closedCFG Fcyc" by (simp add: closedCFG_def Fcyc_def)
  have u: "wf_uses (Ccyc M0)" "wf_uses (Ccyc M1)"
    by (simp_all add: wf_uses_def Ccyc_def M0_def M1_def)
  show "wf_checker (Ccyc M0)"
    using LifetimeChecker_inv [OF LifetimeChecker_cyc(1)] cl u(1)
    by (simp add: wf_checker_def Ccyc_def)
  show "wf_checker (Ccyc M1)"
    using LifetimeChecker_inv [OF LifetimeChecker_cyc(2)] cl u(2)
    by (simp add: wf_checker_def Ccyc_def)
qed

lemma cyc_scanN: "localScanN (Ccyc M0) 12 0 2 = Inr (StillNeeded [True, True])"
  by (simp add: localScanN_def cyc_defs set_range_def av_eval)

lemma cyc_mergeN:
  "\<exists>P'. predsMergeN (Suc (Suc (Suc (Suc 0)))) (Ccyc M0) 12 = Inr ([True, True, True, True], P')"
  by (simp add: predsMergeN_def cyc_defs av_eval Let_def setBlockAvailability_def)

lemma cyc_scan1: "localScan1 (Ccyc M1) 12 = None"
  by (simp add: localScan1_def cyc_defs)

lemma cyc_merge1: "\<exists>P'. predsMerge1 (Suc (Suc (Suc (Suc 0)))) (Ccyc M1) 12 = Inr (None, P')"
  by (simp add: predsMerge1_def cyc_defs av_eval Let_def setBlockAvailability1_def)

text \<open>The writes of the query for the loop head: the body of the loop is entered while
  the head is being computed, and goes back to Unknown.\<close>

lemma getLiveOutN_trace_example:
  "\<exists>R P'. getLiveOutN_trace (Suc (Suc (Suc 0))) F0 2 P0 1
      = Inr ((R, P'), [(1, IsComputingLiveOut), (2, IsComputingLiveOut), (2, IsUnknown), (1, IsKnown)])"
  by (simp add: ex_defs Let_def av_eval setBlockAvailability_def)

lemma yes_is_known_P1: "yes_is_known P1"
  by (simp add: yes_is_known_def ex_defs av_eval)
section \<open>Running the checker on the examples\<close>

lemmas let_defs = FLet_def MLet_def UsLet_def PLet_def CLet_def LiveOutBlockState_def

lemma LifetimeChecker_let: "LifetimeChecker FLet MLet UsLet [Some 13] = Inr CLet"
  by (simp add: LifetimeChecker_def let_defs collectUse_def markAvailable_def
        Let_def PerBlockInfo_init_def av_eval fun_eq_iff)

lemma liveness_let_assign: "getLivenessAtInst (Suc (Suc (Suc (Suc (Suc 0))))) CLet 12 0 (Suc 0) = Inr ([False, True], CLet)"
  by (simp add: getLivenessAtInst_def let_defs Let_def av_eval instsBefore_def)

lemma CLet_sel:
  "Uses CLet = UsLet" "Fn CLet = FLet" "TheMemory CLet = MLet" "Releases CLet = [Some 13]"
  "EmittedErrorLocs CLet = []" "ConditionalDestroys CLet = []"
  "HasConditionalInitAssignOrDestroys CLet = False" "Diags CLet = []"
  by (simp_all add: CLet_def)

lemma UsLet_nth:
  "UsLet ! 0 = \<lparr>Inst = Some 11, Kind = Initialization, FirstElement = 0, NumElements = 1\<rparr>"
  "UsLet ! Suc 0 = \<lparr>Inst = Some 12, Kind = InitOrAssign, FirstElement = 0, NumElements = 1\<rparr>"
  "length UsLet = Suc (Suc 0)"
  by (simp_all add: UsLet_def)

lemma MLet_sel:
  "elementIsLet MLet = (\<lambda>i. True)" "MemoryNumElements MLet = 1" "role MLet = LocalVar"
  "elementDecl MLet = (\<lambda>i. Some \<lparr>declLoc = Some 10, isImplicit = False, hasInit = False\<rparr>)"
  "MemorySILType MLet = SILType (NominalType 0 False) True" "MemoryInst MLet = 10"
  by (simp_all add: MLet_def)

lemma handleStoreUse_let: "handleStoreUse (Suc (Suc (Suc (Suc (Suc 0))))) CLet (Suc 0)
    = Inr (CLet\<lparr>Diags := [Diagnostic (Some 12) immutable_property_already_initialized]\<rparr>)"
  by (simp add: handleStoreUse_def Let_def CLet_sel UsLet_nth liveness_let_assign window_def get_def av_eval
        MLet_sel diagnose_def FLet_def)

lemma liveness_let_release: "getLivenessAtInst (Suc (Suc (Suc (Suc (Suc 0)))))
     (CLet\<lparr>Diags := [Diagnostic (Some 12) immutable_property_already_initialized]\<rparr>) 13 0 (Suc 0)
   = Inr ([False, False], CLet\<lparr>Diags := [Diagnostic (Some 12) immutable_property_already_initialized]\<rparr>)"
  by (simp add: getLivenessAtInst_def let_defs Let_def av_eval instsBefore_def get_def
        setBlockAvailability1_def)

lemma FLet_sel:
  "getInst FLet 13 = DestroyAddrInst (SILValue 10 0)"
  "getInst FLet 12 = AssignInst (SILArgument 2) (SILValue 10 0)"
  "getLoc FLet = (\<lambda>i. Location (Some i))" "NextInst FLet = 18"
  by (simp_all add: FLet_def)

lemma getUsers_let: "getUsers (eraseFromParent FLet 13) 10 = [11, 12]"
  by (simp add: eraseFromParent_def FLet_def allInsts_def getUsers_def)

lemma recursivelyDelete_let:
  "recursivelyDeleteTriviallyDeadInstructions (eraseFromParent FLet 13) 10 = eraseFromParent FLet 13"
  by (rule recursivelyDelete_used) (simp_all add: getUsers_let, simp add: eraseFromParent_def FLet_def)

lemma processNonTrivialRelease_let: "processNonTrivialRelease (Suc (Suc (Suc (Suc (Suc 0)))))
     (CLet\<lparr>Diags := [Diagnostic (Some 12) immutable_property_already_initialized]\<rparr>) 0
   = Inr (CLet\<lparr>Diags := [Diagnostic (Some 12) immutable_property_already_initialized],
                 Fn := eraseFromParent FLet 13, Releases := [None]\<rparr>)"
  by (simp add: processNonTrivialRelease_def Let_def CLet_sel MLet_sel liveness_let_release FLet_sel
        isClassInitSelf_def av_eval isAllNo_def recursivelyDelete_let)

lemma classifyUses_let: "classifyUses (Suc (Suc (Suc (Suc (Suc 0))))) (Suc (Suc (Suc (Suc (Suc 0))))) CLet 0
    = Inr (CLet\<lparr>Diags := [Diagnostic (Some 12) immutable_property_already_initialized]\<rparr>)"
  by (simp add: classifyUse_def Let_def CLet_sel UsLet_nth handleStoreUse_let FLet_def)

lemma doIt_let: "doIt (Suc (Suc (Suc (Suc (Suc 0))))) CLet
   = Inr (CLet\<lparr>Diags := [Diagnostic (Some 12) immutable_property_already_initialized],
                 Fn := eraseFromParent FLet 13, Releases := [None]\<rparr>)"
  by (simp add: doIt_def classifyUses_let CLet_sel MLet_sel processNonTrivialRelease_let del: classifyUses.simps)




















section \<open>Claims about the lattice and the encoding\<close>

text \<open>
  C1. The lattice merge on optional DIKinds is commutative, associative and idempotent,
  Unknown is its unit, Yes and No merge to Partial, and Partial absorbs every defined
  value.
\<close>

theorem mergeKinds_lattice_laws:
  "mergeKinds a b = mergeKinds b a
   \<and> mergeKinds a (mergeKinds b c) = mergeKinds (mergeKinds a b) c
   \<and> mergeKinds a a = a
   \<and> mergeKinds None x = x
   \<and> mergeKinds (Some Yes) (Some No) = Some Partial
   \<and> mergeKinds (Some Partial) (Some k) = Some Partial"
proof -
  have comm: "mergeKinds a b = mergeKinds b a"
    by (cases a; cases b) auto
  have assoc: "mergeKinds a (mergeKinds b c) = mergeKinds (mergeKinds a b) c"
    by (cases a; cases b; cases c) auto
  have idem: "mergeKinds a a = a"
    by (cases a) auto
  show ?thesis
    using comm assoc idem by simp
qed

theorem mergeKinds_lattice_laws_witness:
  "mergeKinds (Some Yes) (Some No) = mergeKinds (Some No) (Some Yes)
   \<and> mergeKinds (Some Yes) (mergeKinds (Some No) None)
       = mergeKinds (mergeKinds (Some Yes) (Some No)) None
   \<and> mergeKinds (Some Yes) (Some Yes) = Some Yes
   \<and> mergeKinds None (Some No) = Some No
   \<and> mergeKinds (Some Yes) (Some No) = Some Partial
   \<and> mergeKinds (Some Partial) (Some Yes) = Some Partial"
  using mergeKinds_lattice_laws [of "Some Yes" "Some No" None "Some No" Yes] by simp

text \<open>
  C9. The two-bit encoding round-trips: for an element index \<open>i\<close> below the size of the
  set and every optional DIKind \<open>k\<close>, reading element \<open>i\<close> after writing \<open>k\<close> to it
  gives \<open>k\<close>, the write keeps the size and every other element, and
  \<^verbatim>\<open>containsUnknownElements\<close> holds exactly when some element is Unknown.
\<close>

theorem AvailabilitySet_roundtrip:
  assumes "i < size_av a"
  shows "getConditional (set_Optional a i k) i = k
         \<and> size_av (set_Optional a i k) = size_av a
         \<and> (\<forall>j. j \<noteq> i \<longrightarrow> getConditional (set_Optional a i k) j = getConditional a j)
         \<and> (containsUnknownElements a \<longleftrightarrow> (\<exists>j. j < size_av a \<and> getConditional a j = None))"
  using assms
  by (simp add: get_set_Optional_same get_set_Optional_other containsUnknownElements_iff)

theorem AvailabilitySet_roundtrip_witness:
  "getConditional (set_Optional (AvailabilitySet 3) 1 (Some Partial)) 1 = Some Partial
   \<and> size_av (set_Optional (AvailabilitySet 3) 1 (Some Partial)) = 3
   \<and> getConditional (set_Optional (AvailabilitySet 3) 1 (Some Partial)) 2 = None
   \<and> containsUnknownElements (AvailabilitySet 3)"
proof -
  have h: "1 < size_av (AvailabilitySet 3)" by simp
  have g: "getConditional (AvailabilitySet 3) 2 = None"
    by (simp add: get_AvailabilitySet)
  then have u: "\<exists>j. j < size_av (AvailabilitySet 3) \<and> getConditional (AvailabilitySet 3) j = None"
    by (intro exI [of _ 2]) simp
  from AvailabilitySet_roundtrip [OF h, of "Some Partial"]
  have r: "getConditional (set_Optional (AvailabilitySet 3) 1 (Some Partial)) 1 = Some Partial"
    and s: "size_av (set_Optional (AvailabilitySet 3) 1 (Some Partial)) = size_av (AvailabilitySet 3)"
    and o: "\<forall>j. j \<noteq> 1 \<longrightarrow> getConditional (set_Optional (AvailabilitySet 3) 1 (Some Partial)) j
              = getConditional (AvailabilitySet 3) j"
    and c: "containsUnknownElements (AvailabilitySet 3)
              \<longleftrightarrow> (\<exists>j. j < size_av (AvailabilitySet 3) \<and> getConditional (AvailabilitySet 3) j = None)"
    by blast+
  from o have "getConditional (set_Optional (AvailabilitySet 3) 1 (Some Partial)) 2
                 = getConditional (AvailabilitySet 3) 2"
    by simp
  with r s c u g show ?thesis
    by simp
qed

section \<open>Claims about the dataflow\<close>

text \<open>
  C3. For a checker whose block map satisfies the invariants of the constructor, an
  instruction in a block of the function and a non-empty element window inside the memory
  object, \<^verbatim>\<open>getLivenessAtInst\<close> returns (with more fuel than the function has blocks) an
  availability set in which the unguarded \<^verbatim>\<open>get\<close> succeeds on every element of the window:
  no element of the window is Unknown. The checker changes in its block map only. When the
  local scan does not decide the result, the value of a window element is the one the
  merge of the predecessors gave it if the scan still needed the element and the merge
  defined it, and Yes otherwise: an element that is still Unknown after the scan and the
  merge is forced to Yes. In the one-element case the element is what the merge gave, and
  Yes if the merge gave nothing.
\<close>

theorem getLivenessAtInst_window_defined:
  assumes "wf_checker C"
    and "getParent (Fn C) I \<in> set (getBlocks (Fn C))"
    and "0 < NumElts"
    and "FirstElt + NumElts \<le> MemoryNumElements (TheMemory C)"
    and "length (getBlocks (Fn C)) < fuel"
  shows "\<exists>R C'. getLivenessAtInst fuel C I FirstElt NumElts = Inr (R, C')
           \<and> (\<forall>i. FirstElt \<le> i \<and> i < FirstElt + NumElts \<longrightarrow> (\<exists>K. get R i = Inr K))
           \<and> C' = C\<lparr>PerBlockInfo := PerBlockInfo C'\<rparr>
           \<and> (\<forall>Needed R0 P' i. MemoryNumElements (TheMemory C) \<noteq> 1
                  \<and> localScanN C I FirstElt NumElts = Inr (StillNeeded Needed)
                  \<and> predsMergeN fuel C I = Inr (R0, P')
                  \<and> FirstElt \<le> i \<and> i < FirstElt + NumElts
                \<longrightarrow> get R i = Inr (if Needed ! i
                                     then (case getConditional R0 i of None \<Rightarrow> Yes | Some K \<Rightarrow> K)
                                     else Yes))
           \<and> (\<forall>V P'. MemoryNumElements (TheMemory C) = 1
                  \<and> localScan1 C I = None \<and> predsMerge1 fuel C I = Inr (V, P')
                \<longrightarrow> get R 0 = Inr (case V of None \<Rightarrow> Yes | Some K \<Rightarrow> K))"
proof -
  from liveness_post_Inr [OF getLivenessAtInst_ok [OF assms]]
  obtain R C' where r: "getLivenessAtInst fuel C I FirstElt NumElts = Inr (R, C')"
    and w: "window_defined FirstElt NumElts R"
    and c: "C' = C\<lparr>PerBlockInfo := PerBlockInfo C'\<rparr>"
    by blast
  have sz: "sized (MemoryNumElements (TheMemory C)) (PerBlockInfo C)"
    using assms(1) by (simp add: wf_checker_def)
  have d: "\<exists>K. get R i = Inr K" if "FirstElt \<le> i" "i < FirstElt + NumElts" for i
    using w that by (auto simp: window_defined_def get_def split: option.splits)
  have n: "get R i = Inr (if Needed ! i
                          then (case getConditional R0 i of None \<Rightarrow> Yes | Some K \<Rightarrow> K) else Yes)"
    if "MemoryNumElements (TheMemory C) \<noteq> 1"
      "localScanN C I FirstElt NumElts = Inr (StillNeeded Needed)"
      "predsMergeN fuel C I = Inr (R0, P')" "FirstElt \<le> i" "i < FirstElt + NumElts"
    for Needed R0 P' i
    by (rule getLivenessAtInst_rescueN [OF that(1) assms(3,4) sz that(2,3) r that(4,5)])
  have o: "get R 0 = Inr (case V of None \<Rightarrow> Yes | Some K \<Rightarrow> K)"
    if "MemoryNumElements (TheMemory C) = 1" "localScan1 C I = None"
      "predsMerge1 fuel C I = Inr (V, P')"
    for V P'
    by (rule getLivenessAtInst_rescue1 [OF that(1) assms(3) that(2,3) r])
  show ?thesis
    apply (rule exI [of _ R], rule exI [of _ C'])
    apply (intro conjI allI impI)
        apply (rule r)
       apply (use d in blast)
      apply (rule c)
     apply (use n in blast)
    apply (use o in blast)
    done
qed

theorem getLivenessAtInst_window_defined_witness:
  "(\<exists>R C'. getLivenessAtInst (Suc (Suc (Suc (Suc 0)))) (Ccyc M0) 12 0 2 = Inr (R, C')
       \<and> get R 0 = Inr Yes \<and> get R 1 = Inr Yes)
   \<and> (\<exists>R C'. getLivenessAtInst (Suc (Suc (Suc (Suc 0)))) (Ccyc M1) 12 0 1 = Inr (R, C') \<and> get R 0 = Inr Yes)
   \<and> (\<exists>R C'. getLivenessAtInst 5 C0 14 0 2 = Inr (R, C')
       \<and> (\<exists>K. get R 0 = Inr K) \<and> (\<exists>K. get R 1 = Inr K))"
proof (intro conjI)
  have b: "getParent (Fn (Ccyc M)) 12 \<in> set (getBlocks (Fn (Ccyc M)))"
    and f: "length (getBlocks (Fn (Ccyc M))) < Suc (Suc (Suc (Suc 0)))" for M
    by (simp_all add: Ccyc_def Fcyc_def)
  have n0: "MemoryNumElements (TheMemory (Ccyc M0)) \<noteq> 1" "0 + 2 \<le> MemoryNumElements (TheMemory (Ccyc M0))"
    and n1: "MemoryNumElements (TheMemory (Ccyc M1)) = 1" "0 + 1 \<le> MemoryNumElements (TheMemory (Ccyc M1))"
    by (simp_all add: Ccyc_def M0_def M1_def)
  from cyc_mergeN obtain P' where m: "predsMergeN (Suc (Suc (Suc (Suc 0)))) (Ccyc M0) 12 = Inr ([True, True, True, True], P')"
    by blast
  have u: "getConditional [True, True, True, True] 0 = None"
     "getConditional [True, True, True, True] 1 = None"
    by (simp_all add: getConditional_def)
  from getLivenessAtInst_window_defined [OF wf_checker_cyc(1) b _ n0(2) f]
  obtain R C' where r: "getLivenessAtInst (Suc (Suc (Suc (Suc 0)))) (Ccyc M0) 12 0 2 = Inr (R, C')"
    and v: "\<forall>Needed R0 P' i. MemoryNumElements (TheMemory (Ccyc M0)) \<noteq> 1
                  \<and> localScanN (Ccyc M0) 12 0 2 = Inr (StillNeeded Needed)
                  \<and> predsMergeN (Suc (Suc (Suc (Suc 0)))) (Ccyc M0) 12 = Inr (R0, P')
                  \<and> 0 \<le> i \<and> i < 0 + 2
                \<longrightarrow> get R i = Inr (if Needed ! i
                                     then (case getConditional R0 i of None \<Rightarrow> Yes | Some K \<Rightarrow> K)
                                     else Yes)"
    by auto
  from v [rule_format, of "[True, True]" "[True, True, True, True]" P' 0] n0(1) cyc_scanN m u
  have g0: "get R 0 = Inr Yes" by simp
  from v [rule_format, of "[True, True]" "[True, True, True, True]" P' 1] n0(1) cyc_scanN m u
  have g1: "get R 1 = Inr Yes" by simp
  from r g0 g1
  show "\<exists>R C'. getLivenessAtInst (Suc (Suc (Suc (Suc 0)))) (Ccyc M0) 12 0 2 = Inr (R, C')
       \<and> get R 0 = Inr Yes \<and> get R 1 = Inr Yes"
    by blast
  from cyc_merge1 obtain Q' where m1: "predsMerge1 (Suc (Suc (Suc (Suc 0)))) (Ccyc M1) 12 = Inr (None, Q')"
    by blast
  from getLivenessAtInst_window_defined [OF wf_checker_cyc(2) b _ n1(2) f]
  obtain R1 C1 where r1: "getLivenessAtInst (Suc (Suc (Suc (Suc 0)))) (Ccyc M1) 12 0 1 = Inr (R1, C1)"
    and v1: "\<forall>V P'. MemoryNumElements (TheMemory (Ccyc M1)) = 1
                  \<and> localScan1 (Ccyc M1) 12 = None \<and> predsMerge1 (Suc (Suc (Suc (Suc 0)))) (Ccyc M1) 12 = Inr (V, P')
                \<longrightarrow> get R1 0 = Inr (case V of None \<Rightarrow> Yes | Some K \<Rightarrow> K)"
    by auto
  from v1 [rule_format, of None Q'] n1(1) cyc_scan1 m1
  have "get R1 0 = Inr Yes" by simp
  with r1 show "\<exists>R C'. getLivenessAtInst (Suc (Suc (Suc (Suc 0)))) (Ccyc M1) 12 0 1 = Inr (R, C') \<and> get R 0 = Inr Yes"
    by blast
  have b0: "getParent (Fn C0) 14 \<in> set (getBlocks (Fn C0))"
    by (simp add: C0_def F0_def)
  have w0: "0 + 2 \<le> MemoryNumElements (TheMemory C0)"
    by (simp add: C0_def M0_def)
  have f0: "length (getBlocks (Fn C0)) < 5"
    by (simp add: C0_def F0_def)
  from getLivenessAtInst_window_defined [OF wf_checker_C0 b0 _ w0 f0]
  obtain R C' where r: "getLivenessAtInst 5 C0 14 0 2 = Inr (R, C')"
    and d: "\<forall>i. 0 \<le> i \<and> i < 0 + 2 \<longrightarrow> (\<exists>K. get R i = Inr K)"
    by auto
  from d have "\<exists>K. get R 0 = Inr K" "\<exists>K. get R 1 = Inr K" by simp_all
  with r show "\<exists>R C'. getLivenessAtInst 5 C0 14 0 2 = Inr (R, C')
       \<and> (\<exists>K. get R 0 = Inr K) \<and> (\<exists>K. get R 1 = Inr K)" by blast
qed

text \<open>
  C4. On a finite control-flow graph (the predecessors of a block of the function are
  blocks of the function) a live-out query with more fuel than the function has blocks does
  not run out of fuel: \<^verbatim>\<open>getLiveOutN\<close> returns a result for every block map, and
  \<^verbatim>\<open>getLiveOut1\<close> returns one for every block map of one-element sets that satisfies the
  invariant of C10 and in which a block that is locally Yes is Known. The recursion is cut
  by the blocks that are being computed: the state of a Known block and its cached set do
  not change, and a block is being computed after the query exactly when it was before.
  The query that records its writes returns the same result, and the states written to
  each block, starting from its state before the query, are moves from Unknown to being
  computed and from being computed to Known or back to Unknown; no write follows Known;
  they end in the state of the block after the query. The number of writes to each block
  within the query is at most \<open>transitionBound F\<close>, a number that depends on the graph
  only. The constructor builds, for a one-element object, a block map that satisfies the
  hypotheses of the one-element query.
\<close>

theorem liveOut_terminates:
  assumes "closedCFG F"
    and "BB \<in> set (getBlocks F)"
    and "length (getBlocks F) < fuel"
  shows "(\<exists>R P' tr. getLiveOutN fuel F N P BB = Inr (R, P')
            \<and> getLiveOutN_trace fuel F N P BB = Inr ((R, P'), tr)
            \<and> (\<forall>B. (LOState (P B) = IsKnown \<longrightarrow> P' B = P B)
                  \<and> (LOState (P' B) = IsComputingLiveOut \<longleftrightarrow> LOState (P B) = IsComputingLiveOut)
                  \<and> walk (LOState (P B)) (writes B tr) = Some (LOState (P' B))
                  \<and> length (writes B tr) \<le> transitionBound F))
       \<and> (sized 1 Q \<and> known_inv Q \<and> yes_is_known Q \<longrightarrow>
           (\<exists>R Q' tr. getLiveOut1 fuel F Q BB = Inr (R, Q')
            \<and> getLiveOut1_trace fuel F Q BB = Inr ((R, Q'), tr)
            \<and> (\<forall>B. (LOState (Q B) = IsKnown \<longrightarrow> Q' B = Q B)
                  \<and> (LOState (Q' B) = IsComputingLiveOut \<longleftrightarrow> LOState (Q B) = IsComputingLiveOut)
                  \<and> walk (LOState (Q B)) (writes B tr) = Some (LOState (Q' B))
                  \<and> length (writes B tr) \<le> transitionBound F)))
       \<and> (LifetimeChecker F M Us Rs = Inr C \<and> MemoryNumElements M = 1
            \<longrightarrow> sized 1 (PerBlockInfo C) \<and> known_inv (PerBlockInfo C)
                \<and> yes_is_known (PerBlockInfo C))"
proof (intro conjI impI)
  have cp: "card (pending F P) < fuel"
    using card_pending_le [of F P] assms(3) by simp
  have "tr_post F (2 * Suc (maxPreds F) ^ card (pending F P)) P (getLiveOutN_trace fuel F N P BB)"
    by (rule getLiveOutN_trace_ok [OF assms(1,2) cp])
  then obtain R P' tr where r: "getLiveOutN_trace fuel F N P BB = Inr ((R, P'), tr)"
    and p: "lo_rel P P'" and t: "trace_rel F P P' tr"
    and l: "length tr \<le> 2 * Suc (maxPreds F) ^ card (pending F P)"
    by (auto simp: tr_post_def split: sum.splits)
  have e: "getLiveOutN fuel F N P BB = Inr (R, P')"
    using r by (simp add: getLiveOutN_trace_erase)
  have "length (writes B tr) \<le> transitionBound F" for B
    using length_writes [of B tr] l power_bound [OF card_pending_le [of F P], of "maxPreds F"]
    by (simp add: transitionBound_def)
  with r e p t
  show "\<exists>R P' tr. getLiveOutN fuel F N P BB = Inr (R, P')
            \<and> getLiveOutN_trace fuel F N P BB = Inr ((R, P'), tr)
            \<and> (\<forall>B. (LOState (P B) = IsKnown \<longrightarrow> P' B = P B)
                  \<and> (LOState (P' B) = IsComputingLiveOut \<longleftrightarrow> LOState (P B) = IsComputingLiveOut)
                  \<and> walk (LOState (P B)) (writes B tr) = Some (LOState (P' B))
                  \<and> length (writes B tr) \<le> transitionBound F)"
    unfolding lo_rel_def trace_rel_def by blast
next
  assume q: "sized 1 Q \<and> known_inv Q \<and> yes_is_known Q"
  have cp: "card (pending F Q) < fuel"
    using card_pending_le [of F Q] assms(3) by simp
  have "tr_post1 F (2 * Suc (maxPreds F) ^ card (pending F Q)) Q (getLiveOut1_trace fuel F Q BB)"
    using q by (intro getLiveOut1_trace_ok [OF assms(1) _ _ _ assms(2) cp]) simp_all
  then obtain R Q' tr where r: "getLiveOut1_trace fuel F Q BB = Inr ((R, Q'), tr)"
    and p: "lo_rel Q Q'" and t: "trace_rel F Q Q' tr"
    and l: "length tr \<le> 2 * Suc (maxPreds F) ^ card (pending F Q)"
    by (auto simp: tr_post1_def split: sum.splits)
  have e: "getLiveOut1 fuel F Q BB = Inr (R, Q')"
    using r by (simp add: getLiveOut1_trace_erase)
  have "length (writes B tr) \<le> transitionBound F" for B
    using length_writes [of B tr] l power_bound [OF card_pending_le [of F Q], of "maxPreds F"]
    by (simp add: transitionBound_def)
  with r e p t
  show "\<exists>R Q' tr. getLiveOut1 fuel F Q BB = Inr (R, Q')
            \<and> getLiveOut1_trace fuel F Q BB = Inr ((R, Q'), tr)
            \<and> (\<forall>B. (LOState (Q B) = IsKnown \<longrightarrow> Q' B = Q B)
                  \<and> (LOState (Q' B) = IsComputingLiveOut \<longleftrightarrow> LOState (Q B) = IsComputingLiveOut)
                  \<and> walk (LOState (Q B)) (writes B tr) = Some (LOState (Q' B))
                  \<and> length (writes B tr) \<le> transitionBound F)"
    unfolding lo_rel_def trace_rel_def by blast
next
  assume c: "LifetimeChecker F M Us Rs = Inr C \<and> MemoryNumElements M = 1"
  then show "sized 1 (PerBlockInfo C)" using LifetimeChecker_inv [of F M Us Rs C] by simp
  from c show "known_inv (PerBlockInfo C)" using LifetimeChecker_inv [of F M Us Rs C] by simp
  from c show "yes_is_known (PerBlockInfo C)"
    using LifetimeChecker_yes_is_known [of F M Us Rs C] by simp
qed

theorem liveOut_terminates_witness:
  "(\<exists>R P' tr. getLiveOutN 5 F0 2 P0 1 = Inr (R, P')
        \<and> getLiveOutN_trace 5 F0 2 P0 1 = Inr ((R, P'), tr) \<and> P' 0 = P0 0
        \<and> LOState (P' 1) \<noteq> IsComputingLiveOut \<and> LOState (P' 2) \<noteq> IsComputingLiveOut
        \<and> walk IsUnknown (writes 1 tr) = Some (LOState (P' 1))
        \<and> walk IsUnknown (writes 2 tr) = Some (LOState (P' 2))
        \<and> length (writes 2 tr) \<le> transitionBound F0)
   \<and> (\<exists>R Q' tr. getLiveOut1 5 F0 P1 1 = Inr (R, Q')
        \<and> getLiveOut1_trace 5 F0 P1 1 = Inr ((R, Q'), tr) \<and> Q' 0 = P1 0 \<and> Q' 2 = P1 2
        \<and> LOState (Q' 1) \<noteq> IsComputingLiveOut
        \<and> walk IsUnknown (writes 1 tr) = Some (LOState (Q' 1))
        \<and> length (writes 1 tr) \<le> transitionBound F0)"
proof -
  have b: "1 \<in> set (getBlocks F0)" and f: "length (getBlocks F0) < 5"
    by (simp_all add: F0_def)
  have k0: "LOState (P0 0) = IsKnown" "LOState (P0 1) = IsUnknown" "LOState (P0 2) = IsUnknown"
    by (simp_all add: ex_defs)
  have k1: "LOState (P1 0) = IsKnown" "LOState (P1 1) = IsUnknown" "LOState (P1 2) = IsKnown"
    by (simp_all add: ex_defs)
  note t = liveOut_terminates [OF closedCFG_F0 b f, of 2 P0 P1]
  from t obtain R P' tr where
    r: "getLiveOutN 5 F0 2 P0 1 = Inr (R, P')" "getLiveOutN_trace 5 F0 2 P0 1 = Inr ((R, P'), tr)"
    and m: "\<forall>B. (LOState (P0 B) = IsKnown \<longrightarrow> P' B = P0 B)
             \<and> (LOState (P' B) = IsComputingLiveOut \<longleftrightarrow> LOState (P0 B) = IsComputingLiveOut)
             \<and> walk (LOState (P0 B)) (writes B tr) = Some (LOState (P' B))
             \<and> length (writes B tr) \<le> transitionBound F0"
    by blast
  from m [rule_format, of 0] m [rule_format, of 1] m [rule_format, of 2] k0
  have a: "P' 0 = P0 0" "LOState (P' 1) \<noteq> IsComputingLiveOut"
    "LOState (P' 2) \<noteq> IsComputingLiveOut"
    "walk IsUnknown (writes 1 tr) = Some (LOState (P' 1))"
    "walk IsUnknown (writes 2 tr) = Some (LOState (P' 2))"
    "length (writes 2 tr) \<le> transitionBound F0"
    by simp_all
  from t sized_P1 known_inv_P1 yes_is_known_P1 obtain R1 Q' tr1 where
    r1: "getLiveOut1 5 F0 P1 1 = Inr (R1, Q')" "getLiveOut1_trace 5 F0 P1 1 = Inr ((R1, Q'), tr1)"
    and m1: "\<forall>B. (LOState (P1 B) = IsKnown \<longrightarrow> Q' B = P1 B)
             \<and> (LOState (Q' B) = IsComputingLiveOut \<longleftrightarrow> LOState (P1 B) = IsComputingLiveOut)
             \<and> walk (LOState (P1 B)) (writes B tr1) = Some (LOState (Q' B))
             \<and> length (writes B tr1) \<le> transitionBound F0"
    by blast
  from m1 [rule_format, of 0] m1 [rule_format, of 1] m1 [rule_format, of 2] k1
  have a1: "Q' 0 = P1 0" "Q' 2 = P1 2" "LOState (Q' 1) \<noteq> IsComputingLiveOut"
    "walk IsUnknown (writes 1 tr1) = Some (LOState (Q' 1))"
    "length (writes 1 tr1) \<le> transitionBound F0"
    by simp_all
  from r a r1 a1 show ?thesis by blast
qed

text \<open>
  C10. Whenever the state of a block is \<^verbatim>\<open>IsKnown\<close>, its cached availability set has no
  Unknown element. The constructor establishes it; \<^verbatim>\<open>setBlockAvailability\<close> returns only
  such a state (it asserts it); and every query of the dataflow that returns, from a block
  map with the property, leaves a block map with the property: \<^verbatim>\<open>getLiveOut1\<close>,
  \<^verbatim>\<open>getLiveOutN\<close> and \<^verbatim>\<open>getLivenessAtInst\<close>, the only writers of the block map.
\<close>

theorem Known_blocks_have_no_Unknown:
  "(LifetimeChecker F M Us Rs = Inr C \<longrightarrow> known_inv (PerBlockInfo C))
   \<and> (setBlockAvailability S AV = Inr S' \<longrightarrow>
        LOState S' = IsKnown \<and> \<not> containsUnknownElements (Availability S'))
   \<and> (known_inv P \<and> getLiveOut1 n F' P BB = Inr (R1, P1') \<longrightarrow> known_inv P1')
   \<and> (known_inv P \<and> getLiveOutN n F' N P BB = Inr (RN, PN') \<longrightarrow> known_inv PN')
   \<and> (known_inv (PerBlockInfo D) \<and> getLivenessAtInst n D I FirstElt NumElts = Inr (RI, D')
        \<longrightarrow> known_inv (PerBlockInfo D'))"
  using LifetimeChecker_inv [of F M Us Rs C] setBlockAvailability_Inr [of S AV S']
    getLiveOut1_known_inv [of n F' P BB R1 P1'] getLiveOutN_known_inv [of n F' N P BB RN PN']
    getLivenessAtInst_known_inv [of n D I FirstElt NumElts RI D']
  by blast

theorem Known_blocks_have_no_Unknown_witness:
  "known_inv (PerBlockInfo C0)
   \<and> (\<exists>R D'. getLivenessAtInst 5 C0 14 0 2 = Inr (R, D') \<and> known_inv (PerBlockInfo D'))"
proof -
  have b: "getParent (Fn C0) 14 \<in> set (getBlocks (Fn C0))"
    and w: "0 + 2 \<le> MemoryNumElements (TheMemory C0)"
    and f: "length (getBlocks (Fn C0)) < 5"
    by (simp_all add: C0_def F0_def M0_def)
  from liveness_post_Inr [OF getLivenessAtInst_ok [OF wf_checker_C0 b _ w f]]
  obtain R D' where r: "getLivenessAtInst 5 C0 14 0 2 = Inr (R, D')" by auto
  note t = Known_blocks_have_no_Unknown [where F = F0 and M = M0 and Us = Us0 and C = C0
      and n = 5 and D = C0 and I = 14 and FirstElt = 0 and NumElts = 2 and RI = R and D' = D']
  from t LifetimeChecker_example have k: "known_inv (PerBlockInfo C0)" by blast
  with t r have "known_inv (PerBlockInfo D')" by blast
  with k r show ?thesis by blast
qed

section \<open>Claims about the lowering of assign\<close>

text \<open>
  C5. Lowering an assign that stands once in its block, at any place of it, deletes the
  assign and puts in its place: one store of the source to the destination if the
  lowering is an initialization or the type of the destination is trivial; otherwise a
  load of the destination, a store of the source to the destination and a release of the
  loaded value, in that order. No other block changes, and the assign is in no block it
  was not in before.
\<close>

theorem LowerAssignInstruction_replaces:
  assumes a: "getInst F I = AssignInst Src Dest"
    and b: "getInsts F (getParent F I) = pre @ I # post"
    and p: "I \<notin> set pre" "I \<notin> set post"
    and n: "I < NextInst F"
  shows "\<exists>news F'. LowerAssignInstruction F I isInitialization = Inr (news, F')
          \<and> getInsts F' (getParent F I) = pre @ news @ post
          \<and> map (getInst F') news =
               (if isInitialization \<or> isTrivial (getType F Dest) then [StoreInst Src Dest]
                else [LoadInst Dest, StoreInst Src Dest, ReleaseValueInst (SILValue (hd news) 0)])
          \<and> (\<forall>BB. I \<notin> set (getInsts F' BB) \<or> (BB \<noteq> getParent F I \<and> I \<in> set (getInsts F BB)))
          \<and> (\<forall>BB. BB \<noteq> getParent F I \<longrightarrow> getInsts F' BB = getInsts F BB)"
proof (cases "isInitialization \<or> isTrivial (getType F Dest)")
  case True
  obtain S F1 where c: "createStore F (Before I) (getLoc F I) Src Dest = (S, F1)"
    by (cases "createStore F (Before I) (getLoc F I) Src Dest")
  note c1 = createInst_Before [OF b p(1) n c [unfolded createStore_def]]
  have e: "LowerAssignInstruction F I isInitialization = Inr ([S], eraseFromParent F1 I)"
    using a True c by (simp add: LowerAssignInstruction_def)
  have s: "S \<noteq> I" using c1 n by simp
  have g1: "getInsts (eraseFromParent F1 I) (getParent F I) = pre @ [S] @ post"
    using c1 p s by (simp add: eraseFromParent_def)
  have g2: "getInst (eraseFromParent F1 I) S = StoreInst Src Dest"
    using c1 by (simp add: eraseFromParent_def)
  have g3: "\<forall>BB. BB \<noteq> getParent F I \<longrightarrow> getInsts (eraseFromParent F1 I) BB = getInsts F BB"
    using c1 by (simp add: eraseFromParent_def)
  have g4: "\<forall>BB. I \<notin> set (getInsts (eraseFromParent F1 I) BB)
                   \<or> (BB \<noteq> getParent F I \<and> I \<in> set (getInsts F BB))"
    by (simp add: eraseFromParent_def c1)
  have g5: "map (getInst (eraseFromParent F1 I)) [S] =
               (if isInitialization \<or> isTrivial (getType F Dest) then [StoreInst Src Dest]
                else [LoadInst Dest, StoreInst Src Dest, ReleaseValueInst (SILValue (hd [S]) 0)])"
    using True g2 by simp
  show ?thesis
    by (intro exI [of _ "[S]"] exI [of _ "eraseFromParent F1 I"] conjI) (fact e g1 g5 g4 g3)+
next
  case False
  obtain L F1 where c: "createInst F (Before I) (getLoc F I) (LoadInst Dest) = (L, F1)"
    by (cases "createInst F (Before I) (getLoc F I) (LoadInst Dest)")
  note c1 = createInst_Before [OF b p(1) n c]
  define F1' where "F1' = F1\<lparr>getType := (getType F1)(SILValue L 0 := getObjectType (getType F Dest))\<rparr>"
  have cl: "createLoad F (Before I) (getLoc F I) Dest = (L, F1')"
    using c by (simp add: createLoad_def F1'_def)
  have b1: "getInsts F1' (getParent F1' I) = (pre @ [L]) @ I # post"
    using c1 by (simp add: F1'_def)
  have l: "L \<noteq> I" using c1 n by simp
  have n1: "I < NextInst F1'" using c1 n by (simp add: F1'_def)
  obtain S F2 where d: "createInst F1' (Before I) (getLoc F I) (StoreInst Src Dest) = (S, F2)"
    by (cases "createInst F1' (Before I) (getLoc F I) (StoreInst Src Dest)")
  have p1: "I \<notin> set (pre @ [L])" using p l by simp
  note d1 = createInst_Before [OF b1 p1 n1 d]
  have b2: "getInsts F2 (getParent F2 I) = (pre @ [L, S]) @ I # post"
    using d1 c1 by (simp add: F1'_def)
  have s: "S \<noteq> I" "S \<noteq> L" using d1 c1 n by (simp_all add: F1'_def)
  have n2: "I < NextInst F2" using d1 n1 by simp
  obtain R F3 where r: "createInst F2 (Before I) (getLoc F I) (ReleaseValueInst (SILValue L 0)) = (R, F3)"
    by (cases "createInst F2 (Before I) (getLoc F I) (ReleaseValueInst (SILValue L 0))")
  have p2: "I \<notin> set (pre @ [L, S])" using p l s by simp
  note r1 = createInst_Before [OF b2 p2 n2 r]
  have rr: "R \<noteq> I" "R \<noteq> L" "R \<noteq> S" using r1 d1 c1 n by (simp_all add: F1'_def)
  have par: "getParent F3 I = getParent F I" using r1 d1 c1 by (simp add: F1'_def)
  have e: "LowerAssignInstruction F I isInitialization = Inr ([L, S, R], eraseFromParent F3 I)"
    using a False cl d r
    by (simp add: LowerAssignInstruction_def createStore_def emitReleaseValueOperation_def)
  have i3: "getInsts F3 = (getInsts F)(getParent F I := pre @ [L, S, R] @ I # post)"
    using r1 d1 c1 by (simp add: F1'_def)
  have g1: "getInsts (eraseFromParent F3 I) (getParent F I) = pre @ [L, S, R] @ post"
    using i3 par p l s rr by (simp add: eraseFromParent_def)
  have g2: "map (getInst (eraseFromParent F3 I)) [L, S, R]
      = [LoadInst Dest, StoreInst Src Dest, ReleaseValueInst (SILValue L 0)]"
    using r1 d1 c1 l s rr by (simp add: eraseFromParent_def F1'_def)
  have g3: "\<forall>BB. BB \<noteq> getParent F I \<longrightarrow> getInsts (eraseFromParent F3 I) BB = getInsts F BB"
    using i3 par by (simp add: eraseFromParent_def)
  have g4: "\<forall>BB. I \<notin> set (getInsts (eraseFromParent F3 I) BB)
                   \<or> (BB \<noteq> getParent F I \<and> I \<in> set (getInsts F BB))"
    by (simp add: eraseFromParent_def i3 par)
  have g5: "map (getInst (eraseFromParent F3 I)) [L, S, R] =
               (if isInitialization \<or> isTrivial (getType F Dest) then [StoreInst Src Dest]
                else [LoadInst Dest, StoreInst Src Dest, ReleaseValueInst (SILValue (hd [L, S, R]) 0)])"
    using False g2 by simp
  show ?thesis
    by (intro exI [of _ "[L, S, R]"] exI [of _ "eraseFromParent F3 I"] conjI) (fact e g1 g5 g4 g3)+
qed

theorem LowerAssignInstruction_replaces_witness:
  "(\<exists>news F'. LowerAssignInstruction F0 13 False = Inr (news, F')
      \<and> getInsts F' 2 = news
      \<and> map (getInst F') news =
           [LoadInst (SILValue 10 0), StoreInst (SILArgument 2) (SILValue 10 0),
            ReleaseValueInst (SILValue (hd news) 0)])
   \<and> (\<exists>news F'. LowerAssignInstruction F0 13 True = Inr (news, F')
      \<and> getInsts F' 2 = news
      \<and> map (getInst F') news = [StoreInst (SILArgument 2) (SILValue 10 0)])"
proof -
  have a: "getInst F0 13 = AssignInst (SILArgument 2) (SILValue 10 0)"
    and b: "getInsts F0 (getParent F0 13) = [] @ 13 # []"
    and n: "13 < NextInst F0"
    and p: "getParent F0 13 = 2"
    and t: "\<not> isTrivial (getType F0 (SILValue 10 0))"
    by (simp_all add: F0_def)
  have e: "(13::nat) \<notin> set []" by simp
  from LowerAssignInstruction_replaces [OF a b e e n, of False]
  obtain news F' where r: "LowerAssignInstruction F0 13 False = Inr (news, F')"
    and g: "getInsts F' (getParent F0 13) = [] @ news @ []"
    and m: "map (getInst F') news =
               (if False \<or> isTrivial (getType F0 (SILValue 10 0))
                then [StoreInst (SILArgument 2) (SILValue 10 0)]
                else [LoadInst (SILValue 10 0), StoreInst (SILArgument 2) (SILValue 10 0),
                      ReleaseValueInst (SILValue (hd news) 0)])"
    by blast
  from g p have g': "getInsts F' 2 = news" by simp
  from m t have m': "map (getInst F') news =
           [LoadInst (SILValue 10 0), StoreInst (SILArgument 2) (SILValue 10 0),
            ReleaseValueInst (SILValue (hd news) 0)]" by simp
  from LowerAssignInstruction_replaces [OF a b e e n, of True]
  obtain news1 F1 where r1: "LowerAssignInstruction F0 13 True = Inr (news1, F1)"
    and g1: "getInsts F1 (getParent F0 13) = [] @ news1 @ []"
    and m1: "map (getInst F1) news1 =
               (if True \<or> isTrivial (getType F0 (SILValue 10 0))
                then [StoreInst (SILArgument 2) (SILValue 10 0)]
                else [LoadInst (SILValue 10 0), StoreInst (SILArgument 2) (SILValue 10 0),
                      ReleaseValueInst (SILValue (hd news1) 0)])"
    by blast
  from g1 p have g1': "getInsts F1 2 = news1" by simp
  from m1 have m1': "map (getInst F1) news1 = [StoreInst (SILArgument 2) (SILValue 10 0)]"
    by simp
  have 1: "\<exists>news F'. LowerAssignInstruction F0 13 False = Inr (news, F')
      \<and> getInsts F' 2 = news
      \<and> map (getInst F') news =
           [LoadInst (SILValue 10 0), StoreInst (SILArgument 2) (SILValue 10 0),
            ReleaseValueInst (SILValue (hd news) 0)]"
    by (rule exI [of _ news], rule exI [of _ F'], intro conjI) (fact r g' m')+
  have 2: "\<exists>news F'. LowerAssignInstruction F0 13 True = Inr (news, F')
      \<and> getInsts F' 2 = news
      \<and> map (getInst F') news = [StoreInst (SILArgument 2) (SILValue 10 0)]"
    by (rule exI [of _ news1], rule exI [of _ F1], intro conjI) (fact r1 g1' m1')+
  from 1 2 show ?thesis by (rule conjI)
qed

section \<open>Claims about the classification of the uses and the diagnostics\<close>







text \<open>
  C8. A run of \<^verbatim>\<open>doIt\<close> on the function that assigns twice to a \<^verbatim>\<open>let\<close> property: the
  classification of the uses emits the error \<^verbatim>\<open>immutable_property_already_initialized\<close>,
  which goes to \<^verbatim>\<open>diagnose\<close> without \<^verbatim>\<open>shouldEmitError\<close>, so the list of reported locations
  stays empty; \<^verbatim>\<open>doIt\<close> then goes on to the releases and deletes the \<^verbatim>\<open>destroy_addr\<close> of
  block 2, where the object is not initialized.
\<close>

theorem doIt_rewrites_after_let_error:
  "LifetimeChecker FLet MLet UsLet [Some 13] = Inr CLet
   \<and> getInsts (Fn CLet) 2 = [13, 17]
   \<and> (\<exists>C'. doIt (Suc (Suc (Suc (Suc (Suc 0))))) CLet = Inr C'
         \<and> Diags C' = [Diagnostic (Some 12) immutable_property_already_initialized]
         \<and> EmittedErrorLocs C' = []
         \<and> getInsts (Fn C') 2 = [17] \<and> Releases C' = [None])"
  using LifetimeChecker_let doIt_let
  by (simp add: CLet_sel eraseFromParent_def) (simp add: FLet_def)

theorem doIt_rewrites_after_let_error_witness:
  "\<exists>C'. doIt (Suc (Suc (Suc (Suc (Suc 0))))) CLet = Inr C'
      \<and> Diags C' \<noteq> [] \<and> getInsts (Fn C') 2 \<noteq> getInsts (Fn CLet) 2"
  using doIt_rewrites_after_let_error by auto
end
